theory Spec2Isabelle
  imports Main "HOL-Library.Sublist"
begin

section \<open>Python strings\<close>

text \<open>
  Texts are \<^typ>\<open>string\<close>. \<open>s.startswith(p)\<close> is \<^term>\<open>prefix p s\<close> and
  \<open>p in s\<close> is \<^term>\<open>sublist p s\<close> (a contiguous block), both from the library
  and both executable.
\<close>

definition startswith :: "string \<Rightarrow> string \<Rightarrow> bool" where
  "startswith s p = prefix p s"

definition py_in :: "string \<Rightarrow> string \<Rightarrow> bool" where
  "py_in p s = sublist p s"

text \<open>
  \<open>s.count(sub)\<close>: the number of non-overlapping occurrences, scanning from the
  left and jumping over each match; the empty \<open>sub\<close> is found \<open>len(s) + 1\<close> times.
\<close>

function str_count :: "string \<Rightarrow> string \<Rightarrow> nat" where
  "str_count s sub =
     (if sub = [] then length s + 1
      else if s = [] then 0
      else if prefix sub s then 1 + str_count (drop (length sub) s) sub
      else str_count (tl s) sub)"
  by pat_completeness auto
termination
  by (relation "measure (\<lambda>(s, sub). length s)") auto

declare str_count.simps [simp del]

text \<open>
  \<open>s.replace(old, new)\<close>: every non-overlapping occurrence from the left is
  replaced; the empty \<open>old\<close> puts \<open>new\<close> before every character and at the end.
\<close>

function str_replace :: "string \<Rightarrow> string \<Rightarrow> string \<Rightarrow> string" where
  "str_replace s old new =
     (if old = [] then new @ concat (map (\<lambda>c. c # new) s)
      else if s = [] then []
      else if prefix old s then new @ str_replace (drop (length old) s) old new
      else hd s # str_replace (tl s) old new)"
  by pat_completeness auto
termination
  by (relation "measure (\<lambda>(s, old, new). length s)") auto

declare str_replace.simps [simp del]

text \<open>
  The places where a text occurs in another one: every offset at which it starts,
  whether or not two of them overlap.
\<close>

definition offsets :: "string \<Rightarrow> string \<Rightarrow> nat list" where
  "offsets sub s = filter (\<lambda>i. prefix sub (drop i s)) [0..<Suc (length s)]"

section \<open>Paths and the file system\<close>

text \<open>
  A POSIX path as \<open>pathlib\<close> holds it: whether it is absolute, and its parts. Parsing
  a text splits it at \<open>/\<close> and drops empty parts and \<open>.\<close>; a \<open>..\<close> part stays until
  the path is resolved. The workspace root is an absolute path given by its parts.
  Symbolic links are not part of the model, so \<open>resolve()\<close> is the lexical one.
  Texts are held as the bytes of their UTF-8 encoding.
\<close>

type_synonym path = "string list"

fun split_slash :: "string \<Rightarrow> string \<Rightarrow> string list" where
  "split_slash acc [] = [rev acc]"
| "split_slash acc (c # cs) =
     (if c = CHR ''/'' then rev acc # split_slash [] cs else split_slash (c # acc) cs)"

definition parts :: "string \<Rightarrow> path" where
  "parts s = filter (\<lambda>p. p \<noteq> [] \<and> p \<noteq> ''.'') (split_slash [] s)"

definition is_absolute :: "string \<Rightarrow> bool" where
  "is_absolute s = (case s of [] \<Rightarrow> False | c # _ \<Rightarrow> c = CHR ''/'')"

text \<open>\<open>workspace / name\<close>: an absolute right operand replaces the left one.\<close>

definition joinpath :: "path \<Rightarrow> string \<Rightarrow> path" where
  "joinpath ws name = (if is_absolute name then parts name else ws @ parts name)"

text \<open>\<open>resolve()\<close> of an absolute path: \<open>..\<close> removes the part before it, and stays at the root.\<close>

fun resolve_acc :: "path \<Rightarrow> path \<Rightarrow> path" where
  "resolve_acc acc [] = rev acc"
| "resolve_acc acc (p # ps) =
     (if p = ''..'' then resolve_acc (tl acc) ps else resolve_acc (p # acc) ps)"

definition resolve :: "path \<Rightarrow> path" where
  "resolve p = resolve_acc [] p"

text \<open>\<open>str(path)\<close> of an absolute path.\<close>

definition path_str :: "path \<Rightarrow> string" where
  "path_str p = (if p = [] then ''/'' else concat (map (\<lambda>c. CHR ''/'' # c) p))"

text \<open>\<open>path.parent\<close>: the path without its last part (the root is its own parent).\<close>

definition parent :: "path \<Rightarrow> path" where
  "parent p = butlast p"

datatype node = File string | Dir

type_synonym fs = "path \<rightharpoonup> node"

datatype os_error = FileExistsError | NotADirectoryError | IsADirectoryError | FileNotFoundError

text \<open>
  The file system maps the place of a node, an absolute path without \<open>..\<close>, to the
  node; the root is a directory. The operating system gets the path as \<open>pathlib\<close>
  holds it, unresolved, and walks it part by part: every part but the last must lead
  to a directory that exists, and \<open>..\<close> goes up from the directory reached so far.
  So \<open>nodir/../draft.md\<close> is not found when \<open>nodir\<close> does not exist, although
  \<open>resolve()\<close> gives \<open>draft.md\<close>.
\<close>

definition lookup :: "fs \<Rightarrow> path \<Rightarrow> node option" where
  "lookup f q = (if q = [] then Some Dir else f q)"

fun walk_dirs :: "fs \<Rightarrow> path \<Rightarrow> path \<Rightarrow> os_error + path" where
  "walk_dirs f cur [] = Inr cur"
| "walk_dirs f cur (c # cs) =
     (if c = ''..'' then walk_dirs f (butlast cur) cs
      else (case f (cur @ [c]) of
              Some Dir \<Rightarrow> walk_dirs f (cur @ [c]) cs
            | Some (File _) \<Rightarrow> Inl NotADirectoryError
            | None \<Rightarrow> Inl FileNotFoundError))"

text \<open>The place a path names, whether or not there is a node.\<close>

definition locate :: "fs \<Rightarrow> path \<Rightarrow> os_error + path" where
  "locate f p =
     (if p = [] then Inr []
      else (case walk_dirs f [] (butlast p) of
              Inl e \<Rightarrow> Inl e
            | Inr d \<Rightarrow> Inr (if last p = ''..'' then butlast d else d @ [last p])))"

definition fs_exists :: "fs \<Rightarrow> path \<Rightarrow> bool" where
  "fs_exists f p = (case locate f p of Inl e \<Rightarrow> False | Inr q \<Rightarrow> lookup f q \<noteq> None)"

definition is_dir :: "fs \<Rightarrow> path \<Rightarrow> bool" where
  "is_dir f p = (case locate f p of Inl e \<Rightarrow> False | Inr q \<Rightarrow> lookup f q = Some Dir)"

definition read_text :: "fs \<Rightarrow> path \<Rightarrow> os_error + string" where
  "read_text f p =
     (case locate f p of
        Inl e \<Rightarrow> Inl e
      | Inr q \<Rightarrow>
          (case lookup f q of
             None \<Rightarrow> Inl FileNotFoundError
           | Some Dir \<Rightarrow> Inl IsADirectoryError
           | Some (File c) \<Rightarrow> Inr c))"

definition write_text :: "fs \<Rightarrow> path \<Rightarrow> string \<Rightarrow> os_error + fs" where
  "write_text f p c =
     (case locate f p of
        Inl e \<Rightarrow> Inl e
      | Inr q \<Rightarrow>
          (case lookup f q of
             Some Dir \<Rightarrow> Inl IsADirectoryError
           | _ \<Rightarrow> Inr (f(q \<mapsto> File c))))"

text \<open>
  \<open>os.mkdir\<close>: the directory above must exist; a path that ends in \<open>..\<close> or names
  a node that exists gives \<open>FileExistsError\<close>.
\<close>

definition os_mkdir :: "fs \<Rightarrow> path \<Rightarrow> os_error + fs" where
  "os_mkdir f p =
     (if p = [] then Inl FileExistsError
      else (case walk_dirs f [] (butlast p) of
              Inl e \<Rightarrow> Inl e
            | Inr d \<Rightarrow>
                (if last p = ''..'' then Inl FileExistsError
                 else (case f (d @ [last p]) of
                         Some n \<Rightarrow> Inl FileExistsError
                       | None \<Rightarrow> Inr (f(d @ [last p] \<mapsto> Dir))))))"

text \<open>
  \<open>Path.mkdir(parents=True, exist_ok=True)\<close> as \<open>pathlib\<close> does it: \<open>os.mkdir\<close> is
  tried; when a directory on the way is missing, the parent, which is the path
  without its last part, is made in the same way and \<open>os.mkdir\<close> is tried once
  more; any other failure is passed over when the path is a directory. The result
  is the error, if any, with the file system as the call leaves it: what was
  created before a failure stays.
\<close>

function mkdir_parents :: "fs \<Rightarrow> path \<Rightarrow> os_error option \<times> fs" where
  "mkdir_parents f p =
     (case os_mkdir f p of
        Inr f' \<Rightarrow> (None, f')
      | Inl e \<Rightarrow>
          (if e = FileNotFoundError then
             (if p = [] then (Some e, f)
              else (case mkdir_parents f (parent p) of
                      (Some e', f1) \<Rightarrow> (Some e', f1)
                    | (None, f1) \<Rightarrow>
                        (case os_mkdir f1 p of
                           Inr f2 \<Rightarrow> (None, f2)
                         | Inl e2 \<Rightarrow>
                             (if e2 \<noteq> FileNotFoundError \<and> is_dir f1 p then (None, f1)
                              else (Some e2, f1)))))
           else if is_dir f p then (None, f)
           else (Some e, f)))"
  by pat_completeness auto
termination
  by (relation "measure (\<lambda>(f, p). length p)") (auto simp: parent_def)

declare mkdir_parents.simps [simp del]

section \<open>The workspace file tools\<close>

datatype file_error =
    No_workspace
  | Security_error
  | Path_traversal
  | File_not_found
  | Text_not_found
  | Ambiguous nat
  | Os_failure os_error

subsection \<open>\<open>FileReadTool\<close>\<close>

text \<open>
  \<open>_get_file_path\<close>: the name is joined to the workspace, and the resolved path must
  be relative to the resolved workspace, part by part; otherwise \<open>ValueError\<close>.
\<close>

definition relative_to_ok :: "path \<Rightarrow> path \<Rightarrow> bool" where
  "relative_to_ok p ws = prefix (resolve ws) (resolve p)"

definition read_get_file_path :: "path \<Rightarrow> string \<Rightarrow> file_error + path" where
  "read_get_file_path ws filename =
     (let file_path = joinpath ws filename
      in if \<not> relative_to_ok file_path ws then Inl Path_traversal else Inr file_path)"

definition file_read :: "path \<Rightarrow> fs \<Rightarrow> string \<Rightarrow> file_error + string" where
  "file_read ws f filename =
     (case read_get_file_path ws filename of
        Inl e \<Rightarrow> Inl e
      | Inr file_path \<Rightarrow>
          (if \<not> fs_exists f file_path then Inl File_not_found
           else (case read_text f file_path of
                   Inl e \<Rightarrow> Inl (Os_failure e)
                 | Inr c \<Rightarrow> Inr c)))"

subsection \<open>\<open>FileWriteTool\<close>\<close>

text \<open>
  Its \<open>_get_file_path\<close> makes the same check and then creates the parent directory
  of the (unresolved) path. What it created stays when a later step fails.
\<close>

definition write_get_file_path :: "path \<Rightarrow> fs \<Rightarrow> string \<Rightarrow> (file_error + path) \<times> fs" where
  "write_get_file_path ws f filename =
     (let file_path = joinpath ws filename
      in if \<not> relative_to_ok file_path ws then (Inl Path_traversal, f)
         else (case mkdir_parents f (parent file_path) of
                 (Some e, f') \<Rightarrow> (Inl (Os_failure e), f')
               | (None, f') \<Rightarrow> (Inr file_path, f')))"

definition file_write :: "path \<Rightarrow> fs \<Rightarrow> string \<Rightarrow> string \<Rightarrow> bool \<Rightarrow> (file_error + string) \<times> fs" where
  "file_write ws f filename text append_flag =
     (case write_get_file_path ws f filename of
        (Inl e, f') \<Rightarrow> (Inl e, f')
      | (Inr file_path, f') \<Rightarrow>
          (if append_flag then
            (case (if fs_exists f' file_path then read_text f' file_path else Inr []) of
               Inl e \<Rightarrow> (Inl (Os_failure e), f')
             | Inr existing \<Rightarrow>
                 (let new_content = existing @ (if existing \<noteq> [] then [CHR 0x0A] else []) @ text
                  in (case write_text f' file_path new_content of
                        Inl e \<Rightarrow> (Inl (Os_failure e), f')
                      | Inr f'' \<Rightarrow> (Inr new_content, f''))))
          else
            (case write_text f' file_path text of
               Inl e \<Rightarrow> (Inl (Os_failure e), f')
             | Inr f'' \<Rightarrow> (Inr text, f''))))"

subsection \<open>\<open>FileEditTool\<close>\<close>

text \<open>
  \<open>execute\<close>: an absolute \<open>file_path\<close> is taken as it is, a relative one is joined
  to the workspace. The security check compares the two resolved paths as texts,
  with \<open>str.startswith\<close>. Then: the file must exist, \<open>old_text\<close> must be in it, and
  \<open>count\<close> must not exceed one; the content after \<open>replace\<close> is written back. The
  result is the error, or the new content on success, with the file system after
  the call.
\<close>

definition security_check :: "path \<Rightarrow> path \<Rightarrow> bool" where
  "security_check full_path ws = startswith (path_str (resolve full_path)) (path_str (resolve ws))"

definition edit_full_path :: "path \<Rightarrow> string \<Rightarrow> path" where
  "edit_full_path ws file_path =
     (if is_absolute file_path then parts file_path else ws @ parts file_path)"

definition file_edit ::
  "path option \<Rightarrow> fs \<Rightarrow> string \<Rightarrow> string \<Rightarrow> string \<Rightarrow> (file_error + string) \<times> fs" where
  "file_edit workspace_dir f file_path old_text new_text =
     (case workspace_dir of
        None \<Rightarrow> (Inl No_workspace, f)
      | Some ws \<Rightarrow>
          (let full_path = edit_full_path ws file_path
           in if \<not> security_check full_path ws then (Inl Security_error, f)
              else if \<not> fs_exists f full_path then (Inl File_not_found, f)
              else (case read_text f full_path of
                Inl e \<Rightarrow> (Inl (Os_failure e), f)
              | Inr original_content \<Rightarrow>
                  (if \<not> py_in old_text original_content then (Inl Text_not_found, f)
                   else (let occurrences = str_count original_content old_text
                         in if occurrences > 1 then (Inl (Ambiguous occurrences), f)
                            else (let new_content = str_replace original_content old_text new_text
                                  in (case write_text f full_path new_content of
                                        Inl e \<Rightarrow> (Inl (Os_failure e), f)
                                      | Inr f' \<Rightarrow> (Inr new_content, f'))))))))"


subsection \<open>A workspace with a neighbouring directory\<close>

definition example_ws :: path where
  "example_ws = [''data'', ''workspace_agent'']"

definition example_fs :: fs where
  "example_fs =
     [[] \<mapsto> Dir,
      [''data''] \<mapsto> Dir,
      [''data'', ''workspace_agent''] \<mapsto> Dir,
      [''data'', ''workspace_agent'', ''draft.md''] \<mapsto> File ''aaa'',
      [''data'', ''workspace_agent_old''] \<mapsto> Dir,
      [''data'', ''workspace_agent_old'', ''notes.md''] \<mapsto> File ''secret'']"

section \<open>Messages and the message log\<close>

datatype role = System | User | Assistant | Tool

record tool_call =
  tc_id :: string
  tc_type :: string
  tc_name :: string
  tc_arguments :: string

text \<open>
  A message of the log. \<open>tool_calls\<close> is empty when the key is absent, and
  \<open>tool_call_id\<close> is \<open>None\<close> when it is.
\<close>

record message =
  role :: role
  content :: "string option"
  tool_calls :: "tool_call list"
  tool_call_id :: "string option"

definition mk_message :: "role \<Rightarrow> string option \<Rightarrow> message" where
  "mk_message r c = \<lparr>role = r, content = c, tool_calls = [], tool_call_id = None\<rparr>"

text \<open>Exceptions carry the text that \<open>str(e)\<close> gives.\<close>

datatype exn =
    ValueError string
  | AssertionError string
  | JSONDecodeError string
  | AttributeError string
  | TypeError string
  | ValidationError string
  | RuntimeError string

fun str_exn :: "exn \<Rightarrow> string" where
  "str_exn (ValueError s) = s"
| "str_exn (AssertionError s) = s"
| "str_exn (JSONDecodeError s) = s"
| "str_exn (AttributeError s) = s"
| "str_exn (TypeError s) = s"
| "str_exn (ValidationError s) = s"
| "str_exn (RuntimeError s) = s"

text \<open>Python's truth value of an optional text: \<open>None\<close> and the empty text are false.\<close>

definition truthy :: "string option \<Rightarrow> bool" where
  "truthy c = (case c of None \<Rightarrow> False | Some s \<Rightarrow> s \<noteq> [])"

subsection \<open>\<open>MessageManager\<close>\<close>

text \<open>
  The manager holds the list in memory and, when it was given a directory, the file
  \<open>messages.json\<close> in it. The disk maps a file to the list its JSON text encodes.
  \<open>_save\<close> returns at once without a file, and swallows a failed write; whether
  the write succeeds is the environment's, passed as \<open>writable\<close>.
\<close>

record message_manager =
  messages :: "message list"
  persist_dir :: "path option"

type_synonym disk = "path \<rightharpoonup> message list"

definition messages_file :: "message_manager \<Rightarrow> path option" where
  "messages_file m = map_option (\<lambda>d. d @ [''messages.json'']) (persist_dir m)"

definition save :: "bool \<Rightarrow> message_manager \<Rightarrow> disk \<Rightarrow> disk" where
  "save writable m d =
     (case messages_file m of
        None \<Rightarrow> d
      | Some file \<Rightarrow> if writable then d(file \<mapsto> messages m) else d)"

definition add_system_message ::
  "bool \<Rightarrow> string \<Rightarrow> message_manager \<Rightarrow> disk \<Rightarrow> message_manager \<times> disk" where
  "add_system_message writable c m d =
     (let m' = m\<lparr>messages := messages m @ [mk_message System (Some c)]\<rparr>
      in (m', save writable m' d))"

definition add_user_message ::
  "bool \<Rightarrow> string \<Rightarrow> message_manager \<Rightarrow> disk \<Rightarrow> message_manager \<times> disk" where
  "add_user_message writable c m d =
     (let m' = m\<lparr>messages := messages m @ [mk_message User (Some c)]\<rparr>
      in (m', save writable m' d))"

text \<open>
  \<open>add_assistant_message\<close> raises \<open>ValueError\<close> without content and tool calls,
  and an assertion fails on a tool call whose type is not \<open>function\<close>; then nothing
  is appended. An empty content is stored as \<open>None\<close>.
\<close>

definition add_assistant_message ::
  "bool \<Rightarrow> string option \<Rightarrow> tool_call list \<Rightarrow> message_manager \<Rightarrow> disk
     \<Rightarrow> exn + message_manager \<times> disk" where
  "add_assistant_message writable c tcs m d =
     (if \<not> truthy c \<and> tcs = [] then
        Inl (ValueError ''Assistant message must have either content or tool_calls'')
      else if list_ex (\<lambda>tc. tc_type tc \<noteq> ''function'') tcs then
        Inl (AssertionError (''Tool call type must be 'function'' @ [CHR 0x27]))
      else
        (let message = \<lparr>role = Assistant, content = (if truthy c then c else None),
                          tool_calls = tcs, tool_call_id = None\<rparr>;
             m' = m\<lparr>messages := messages m @ [message]\<rparr>
         in Inr (m', save writable m' d)))"

definition add_tool_result ::
  "bool \<Rightarrow> string \<Rightarrow> string \<Rightarrow> message_manager \<Rightarrow> disk \<Rightarrow> message_manager \<times> disk" where
  "add_tool_result writable call_id c m d =
     (let m' = m\<lparr>messages := messages m @
                  [\<lparr>role = Tool, content = Some c, tool_calls = [], tool_call_id = Some call_id\<rparr>]\<rparr>
      in (m', save writable m' d))"

definition clear :: "bool \<Rightarrow> message_manager \<Rightarrow> disk \<Rightarrow> message_manager \<times> disk" where
  "clear keep_system m d =
     (if keep_system then (m\<lparr>messages := filter (\<lambda>x. role x = System) (messages m)\<rparr>, d)
      else (m\<lparr>messages := []\<rparr>, d))"

definition get_conversation_length :: "message_manager \<Rightarrow> nat" where
  "get_conversation_length m = length (filter (\<lambda>x. role x \<noteq> System) (messages m))"

subsection \<open>A session whose log is cleared\<close>

definition example_manager :: message_manager where
  "example_manager = \<lparr>messages = [], persist_dir = Some [''data'', ''chats'', ''s1'']\<rparr>"

definition example_log_state :: "message_manager \<times> disk" where
  "example_log_state =
     (case add_system_message True ''You are a helpful assistant.'' example_manager Map.empty of
        (m1, d1) \<Rightarrow> add_user_message True ''What is 2+3?'' m1 d1)"

section \<open>The model provider and JSON\<close>

datatype json =
    JNull
  | JBool bool
  | JNum int
  | JStr string
  | JList "json list"
  | JDict "(string \<times> json) list"

text \<open>
  What the agent reads of a chat completion: the prompt-token count when the
  response has a \<open>usage\<close> entry, and the message's reasoning, content and tool
  calls (no tool calls: the empty list).
\<close>

record llm_response =
  usage_prompt_tokens :: "int option"
  reasoning :: "string option"
  r_content :: "string option"
  r_tool_calls :: "tool_call list"

section \<open>\<open>CompactContextTool\<close>\<close>

text \<open>
  The environment of one \<open>execute\<close>: the text of the constant
  \<open>COMPACTION_AGENT_SYSTEM_PROMPT\<close>, whether a provider is set, the answers of the
  provider to the calls of the compaction agent (by iteration) and to the
  confirmation call, \<open>json.loads\<close>, the file-read tool of the agent with its result
  already dumped to text (absent without a workspace), the dumped error for a tool
  of another name, and whether the log file can be written.
\<close>

record compact_env =
  ce_system_prompt :: string
  ce_has_provider :: bool
  ce_chat :: "nat \<Rightarrow> message list \<Rightarrow> exn + llm_response"
  ce_confirm :: "message list \<Rightarrow> exn + llm_response"
  ce_json_loads :: "string \<Rightarrow> exn + json"
  ce_file_read :: "(json \<Rightarrow> exn + string) option"
  ce_unknown_tool :: "string \<Rightarrow> string"
  ce_writable :: bool

text \<open>The number of user messages of a log, as an integer.\<close>

abbreviation (input) users :: "message list \<Rightarrow> int" where
  "users ms \<equiv> int (length (filter (\<lambda>m. role m = User) ms))"

text \<open>
  The walk from the end of the log to the \<open>keep_recent_user_messages\<close>-th user
  message: \<open>find_split all k n c\<close> has the indices below \<open>n\<close> left to visit and has
  counted \<open>c\<close> user messages; it returns \<open>split_index\<close> and \<open>user_count\<close>.
\<close>

fun find_split :: "message list \<Rightarrow> int \<Rightarrow> nat \<Rightarrow> int \<Rightarrow> nat \<times> int" where
  "find_split all k 0 user_count = (length all, user_count)"
| "find_split all k (Suc i) user_count =
     (if role (all ! i) = User then
        (if user_count + 1 = k then (i, user_count + 1)
         else find_split all k i (user_count + 1))
      else find_split all k i user_count)"

text \<open>One tool call of the compaction agent, giving the tool message to append.\<close>

definition compact_tool_call :: "compact_env \<Rightarrow> tool_call \<Rightarrow> exn + message" where
  "compact_tool_call env tc =
     (case ce_json_loads env (tc_arguments tc) of
        Inl e \<Rightarrow> Inl e
      | Inr tool_args \<Rightarrow>
          (case (if tc_name tc = ''file_read'' then
                   (case ce_file_read env of
                      None \<Rightarrow> Inl (AttributeError
                        ('''NoneType' object has no attribute 'execute'' @ [CHR 0x27]))
                    | Some run \<Rightarrow> run tool_args)
                 else Inr (ce_unknown_tool env (tc_name tc))) of
             Inl e \<Rightarrow> Inl e
           | Inr result_str \<Rightarrow>
               Inr \<lparr>role = Tool, content = Some result_str, tool_calls = [],
                    tool_call_id = Some (tc_id tc)\<rparr>))"

fun compact_tool_calls :: "compact_env \<Rightarrow> tool_call list \<Rightarrow> exn + message list" where
  "compact_tool_calls env [] = Inr []"
| "compact_tool_calls env (tc # tcs) =
     (case compact_tool_call env tc of
        Inl e \<Rightarrow> Inl e
      | Inr m \<Rightarrow>
          (case compact_tool_calls env tcs of
             Inl e \<Rightarrow> Inl e
           | Inr ms \<Rightarrow> Inr (m # ms)))"

text \<open>
  The loop of the compaction agent, \<open>n\<close> iterations left: it ends with the content
  of the first answer without tool calls, and with \<open>None\<close> when the iterations run out.
\<close>

fun compaction_agent ::
  "compact_env \<Rightarrow> nat \<Rightarrow> nat \<Rightarrow> message list \<Rightarrow> exn + string option" where
  "compaction_agent env 0 iteration compact_messages = Inr None"
| "compaction_agent env (Suc n) iteration compact_messages =
     (case ce_chat env iteration compact_messages of
        Inl e \<Rightarrow> Inl e
      | Inr response \<Rightarrow>
          (if r_tool_calls response = [] then Inr (r_content response)
           else
             (case compact_tool_calls env (r_tool_calls response) of
                Inl e \<Rightarrow> Inl e
              | Inr tool_messages \<Rightarrow>
                  compaction_agent env n (Suc iteration)
                    (compact_messages
                     @ [\<lparr>role = Assistant, content = r_content response,
                          tool_calls = r_tool_calls response, tool_call_id = None\<rparr>]
                     @ tool_messages))))"

definition summary_content :: "string \<Rightarrow> string" where
  "summary_content summary_text =
     [CHR 0xC3, CHR 0xB0, CHR 0xC5, CHR 0xB8, CHR 0xE2, CHR 0x80, CHR 0x9C, CHR 0xE2, CHR 0x80, CHR 0xB9]
     @ '' **[Context Summary - Previous Conversation]**\<newline>\<newline>''
     @ summary_text
     @ ''\<newline>\<newline>---\<newline>Please review the above summary and confirm your understanding of previous work.''"

definition continue_message :: message where
  "continue_message = mk_message User (Some ''Good. Please continue your work.'')"

definition FALLBACK_CONFIRMATION :: string where
  "FALLBACK_CONFIRMATION = ''I understand the previous work and will continue from here.''"

datatype kept_reason = Too_few_messages | Only_user_messages int | No_old_messages

datatype compact_result =
    Compact_error string
  | Compact_kept kept_reason
  | Compact_done nat nat nat nat

text \<open>
  Steps 5 to 11 of \<open>execute\<close>, once the old and the recent span are known: the
  compaction agent makes the summary, a second call of the provider confirms it, and
  the log is replaced and saved.
\<close>

definition compact_rewrite ::
  "compact_env \<Rightarrow> message_manager \<Rightarrow> disk \<Rightarrow> message list \<Rightarrow> message list \<Rightarrow> message list
     \<Rightarrow> compact_result \<times> message_manager option \<times> disk" where
  "compact_rewrite env mm d system_messages old_messages recent_messages =
     (case compaction_agent env 10 0
             ([mk_message System (Some (ce_system_prompt env))]
              @ old_messages
              @ [mk_message User (Some
                   ''Summarize the above conversation using the 5-section XML format. Use file_read if needed.'')]) of
        Inl e \<Rightarrow> (Compact_error (str_exn e), Some mm, d)
      | Inr None \<Rightarrow> (Compact_error ''Compaction agent timeout'', Some mm, d)
      | Inr (Some summary_text) \<Rightarrow>
          (if summary_text = [] then (Compact_error ''Compaction agent timeout'', Some mm, d)
           else
             (let summary_message = mk_message User (Some (summary_content summary_text))
              in
              (case ce_confirm env (system_messages @ [summary_message]) of
                 Inl e \<Rightarrow> (Compact_error (str_exn e), Some mm, d)
               | Inr confirmation_response \<Rightarrow>
                   (let confirmation_text =
                          (case r_content confirmation_response of
                             None \<Rightarrow> FALLBACK_CONFIRMATION
                           | Some t \<Rightarrow> if t = [] then FALLBACK_CONFIRMATION else t);
                        confirmation_message = mk_message Assistant (Some confirmation_text);
                        new_messages = system_messages
                          @ [summary_message, confirmation_message]
                          @ recent_messages @ [continue_message];
                        mm' = mm\<lparr>messages := new_messages\<rparr>
                    in (Compact_done (length (messages mm)) (length new_messages)
                          (length old_messages) (length recent_messages),
                        Some mm', save (ce_writable env) mm' d))))))"

text \<open>
  \<open>execute\<close>. \<open>Compact_kept\<close> is a result with \<open>success\<close> true that left the log as
  it was; \<open>Compact_done before after old recent\<close> is the result after the log was
  replaced. An exception anywhere is caught and becomes \<open>Compact_error\<close>.
\<close>

definition compact_execute ::
  "compact_env \<Rightarrow> int \<Rightarrow> message_manager option \<Rightarrow> disk
     \<Rightarrow> compact_result \<times> message_manager option \<times> disk" where
  "compact_execute env keep_recent_user_messages manager d =
     (case manager of
        None \<Rightarrow> (Compact_error ''MessageManager not available'', manager, d)
      | Some mm \<Rightarrow>
        if \<not> ce_has_provider env then (Compact_error ''LLM provider not available'', manager, d)
        else
          (let all_messages = messages mm in
           if length all_messages \<le> 3 then (Compact_kept Too_few_messages, manager, d)
           else
             (let system_messages = filter (\<lambda>m. role m = System) all_messages;
                  (split_index, user_count) =
                     find_split all_messages keep_recent_user_messages (length all_messages) 0
              in
              if user_count < keep_recent_user_messages then
                (Compact_kept (Only_user_messages user_count), manager, d)
              else
                (let system_end = length system_messages;
                     old_messages = take (split_index - system_end) (drop system_end all_messages);
                     recent_messages = drop split_index all_messages
                 in
                 if length old_messages = 0 then (Compact_kept No_old_messages, manager, d)
                 else compact_rewrite env mm d system_messages old_messages recent_messages))))"

subsection \<open>A log with eleven user messages\<close>

definition example_compact_env :: compact_env where
  "example_compact_env =
     \<lparr>ce_system_prompt = ''You are a summarizer.'',
      ce_has_provider = True,
      ce_chat = (\<lambda>n ms. Inr \<lparr>usage_prompt_tokens = None, reasoning = None,
                   r_content = Some ''<overall_goal>answer</overall_goal>'', r_tool_calls = []\<rparr>),
      ce_confirm = (\<lambda>ms. Inr \<lparr>usage_prompt_tokens = None, reasoning = None,
                   r_content = Some ''Understood.'', r_tool_calls = []\<rparr>),
      ce_json_loads = (\<lambda>s. Inr (JDict [])),
      ce_file_read = None,
      ce_unknown_tool = (\<lambda>n. ''{}''),
      ce_writable = True\<rparr>"

definition example_long_log :: message_manager where
  "example_long_log =
     \<lparr>messages =
        [mk_message System (Some ''You are a research agent.''),
         mk_message User (Some ''first question''),
         mk_message Assistant (Some ''first answer'')]
        @ replicate 10 (mk_message User (Some ''go on'')),
      persist_dir = None\<rparr>"

definition example_short_log :: message_manager where
  "example_short_log =
     \<lparr>messages =
        [mk_message System (Some ''You are a research agent.''),
         mk_message User (Some ''first question''),
         mk_message Assistant (Some ''first answer''),
         mk_message User (Some ''second question'')],
      persist_dir = None\<rparr>"

section \<open>Tool results, thinking steps and sources\<close>

subsection \<open>More string operations\<close>

text \<open>
  \<open>str.lower()\<close> on the letters \<open>A\<close> to \<open>Z\<close>; the texts searched for below have
  no other letters. \<open>str(n)\<close> of a natural number.
\<close>

definition lower_char :: "char \<Rightarrow> char" where
  "lower_char c =
     (let n = (of_char c :: nat) in if 65 \<le> n \<and> n \<le> 90 then char_of (n + 32) else c)"

definition py_lower :: "string \<Rightarrow> string" where
  "py_lower s = map lower_char s"

function str_nat :: "nat \<Rightarrow> string" where
  "str_nat n =
     (if n < 10 then [char_of (48 + n)] else str_nat (n div 10) @ [char_of (48 + n mod 10)])"
  by pat_completeness auto
termination
  by (relation "measure id") auto

declare str_nat.simps [simp del]

text \<open>\<open>sep.join(lines)\<close>.\<close>

fun join :: "string \<Rightarrow> string list \<Rightarrow> string" where
  "join sep [] = []"
| "join sep [l] = l"
| "join sep (l # ls) = l @ sep @ join sep ls"

subsection \<open>\<open>_create_thinking_step\<close>\<close>

record thinking_step =
  ts_step :: nat
  ts_tool :: string
  ts_input :: json
  ts_output :: string
  ts_success :: bool
  ts_thinking :: "string option"
  ts_urls :: "string list option"
  ts_has_code :: bool
  ts_has_image :: bool

definition is_error :: "string \<Rightarrow> bool" where
  "is_error tool_result =
     (startswith tool_result ''Failed to''
      \<or> startswith tool_result ''Tool execution failed''
      \<or> (startswith tool_result (''Tool '' @ [CHR 0x27]) \<and> py_in ''' not found'' tool_result))"

text \<open>
  The URLs of a web search step come from its arguments: the value at \<open>url\<close>, or
  else the value at \<open>urls\<close>. The \<open>ThinkingStep\<close> model wants a list of texts or
  \<open>None\<close> there and a dictionary as input; anything else fails its validation. For a
  web search the tests for \<open>url\<close> and \<open>urls\<close> in the arguments come
  first: on a number, a boolean or \<open>None\<close> they raise \<open>TypeError\<close>; on a text or a
  list they are a search, and when it succeeds the subscript raises \<open>TypeError\<close>. The
  texts of exceptions raised by a library are shortened here.
\<close>

fun json_str_list :: "json list \<Rightarrow> string list option" where
  "json_str_list [] = Some []"
| "json_str_list (JStr s # js) = map_option ((#) s) (json_str_list js)"
| "json_str_list (_ # js) = None"

definition step_urls :: "string \<Rightarrow> (string \<times> json) list \<Rightarrow> exn + string list option" where
  "step_urls tool_name kv =
     (if tool_name = ''web_search'' then
        (case map_of kv ''url'' of
           Some (JStr u) \<Rightarrow> Inr (Some [u])
         | Some _ \<Rightarrow> Inl (ValidationError ''urls.0: Input should be a valid string'')
         | None \<Rightarrow>
             (case map_of kv ''urls'' of
                None \<Rightarrow> Inr None
              | Some JNull \<Rightarrow> Inr None
              | Some (JList js) \<Rightarrow>
                  (case json_str_list js of
                     Some us \<Rightarrow> Inr (Some us)
                   | None \<Rightarrow> Inl (ValidationError ''urls: Input should be a valid string''))
              | Some _ \<Rightarrow> Inl (ValidationError ''urls: Input should be a valid list'')))
      else Inr None)"

definition create_thinking_step ::
  "nat \<Rightarrow> string \<Rightarrow> json \<Rightarrow> string \<Rightarrow> string option \<Rightarrow> exn + thinking_step" where
  "create_thinking_step step tool_name tool_args tool_result reasoning' =
     (case tool_args of
        JDict kv \<Rightarrow>
          (case step_urls tool_name kv of
             Inl e \<Rightarrow> Inl e
           | Inr urls \<Rightarrow>
               Inr \<lparr>ts_step = step, ts_tool = tool_name, ts_input = tool_args,
                    ts_output = tool_result, ts_success = (\<not> is_error tool_result),
                    ts_thinking = reasoning', ts_urls = urls,
                    ts_has_code = (tool_name = ''execute_python''),
                    ts_has_image = (tool_name = ''execute_python''
                       \<and> (py_in ''image'' (py_lower tool_result)
                            \<or> py_in ''plot'' (py_lower tool_result)))\<rparr>)
      | _ \<Rightarrow>
          (if tool_name = ''web_search'' then
             (case tool_args of
                JStr t \<Rightarrow>
                  if py_in ''url'' t then Inl (TypeError ''string indices must be integers'')
                  else Inl (ValidationError ''input: Input should be a valid dictionary'')
              | JList js \<Rightarrow>
                  if JStr ''url'' \<in> set js \<or> JStr ''urls'' \<in> set js
                  then Inl (TypeError ''list indices must be integers or slices, not str'')
                  else Inl (ValidationError ''input: Input should be a valid dictionary'')
              | _ \<Rightarrow> Inl (TypeError ''argument is not iterable''))
           else Inl (ValidationError ''input: Input should be a valid dictionary'')))"

subsection \<open>Web search results and sources\<close>

record search_hit =
  h_title :: string
  h_url :: string
  h_snippet :: string
  h_age :: "string option"
  h_cache_path :: "string option"

text \<open>What \<open>WebSearchTool.execute\<close> returns: \<open>error\<close> is set when the vendor failed.\<close>

record search_result =
  sr_query :: string
  sr_search_type :: string
  sr_results :: "search_hit list"
  sr_error :: "string option"

record source =
  s_idx :: nat
  s_title :: string
  s_url :: string
  s_snippet :: string
  s_age :: "string option"
  s_cache_path :: "string option"

definition make_source :: "nat \<Rightarrow> search_hit \<Rightarrow> source" where
  "make_source i r =
     \<lparr>s_idx = i, s_title = h_title r, s_url = h_url r, s_snippet = h_snippet r,
      s_age = h_age r, s_cache_path = h_cache_path r\<rparr>"

text \<open>\<open>enumerate(results, start)\<close>, each result made a source.\<close>

fun enumerate_sources :: "nat \<Rightarrow> search_hit list \<Rightarrow> source list" where
  "enumerate_sources i [] = []"
| "enumerate_sources i (r # rs) = make_source i r # enumerate_sources (Suc i) rs"

text \<open>
  The lines shown to the model for one result: with its number in Chat Mode, with a
  bullet in Agent Mode.
\<close>

definition optional_line :: "string \<Rightarrow> string option \<Rightarrow> string list" where
  "optional_line label v =
     (case v of None \<Rightarrow> [] | Some t \<Rightarrow> if t = [] then [] else [label @ t])"

definition hit_lines :: "bool \<Rightarrow> nat \<Rightarrow> search_hit \<Rightarrow> string list" where
  "hit_lines numbered i r =
     (if numbered then
        [''['' @ str_nat i @ ''] '' @ h_title r, ''    URL: '' @ h_url r]
        @ optional_line ''    Cached: '' (h_cache_path r)
        @ optional_line ''    Published: '' (h_age r)
        @ optional_line ''    '' (Some (h_snippet r))
        @ ['''']
      else
        [[CHR 0xE2, CHR 0x80, CHR 0xA2] @ '' '' @ h_title r, ''  URL: '' @ h_url r]
        @ optional_line ''  Cached: '' (h_cache_path r)
        @ optional_line ''  Published: '' (h_age r)
        @ optional_line ''  '' (Some (h_snippet r))
        @ [''''])"

fun all_hit_lines :: "bool \<Rightarrow> nat \<Rightarrow> search_hit list \<Rightarrow> string list" where
  "all_hit_lines numbered i [] = []"
| "all_hit_lines numbered i (r # rs) = hit_lines numbered i r @ all_hit_lines numbered (Suc i) rs"

text \<open>
  \<open>_process_web_search_result\<close> (\<open>numbered\<close>) and \<open>_process_web_search_for_agent\<close>:
  the text for the model and the new value of \<open>self.current_sources\<close>, which a failed
  or empty search leaves as it was.
\<close>

definition process_web_search :: "bool \<Rightarrow> search_result \<Rightarrow> source list \<Rightarrow> string \<times> source list" where
  "process_web_search numbered result cur =
     (if truthy (sr_error result) \<or> sr_results result = [] then
        (''Search failed: '' @ (case sr_error result of None \<Rightarrow> ''No results found'' | Some e \<Rightarrow> e),
         cur)
      else
        (join ''\<newline>''
           ([''Search query: '' @ sr_query result,
             ''Found '' @ str_nat (length (sr_results result)) @ '' results'',
             ''Search type: '' @ sr_search_type result,
             ''\<newline>'' @ replicate 80 (CHR ''='') @ ''\<newline>'']
            @ all_hit_lines numbered 1 (sr_results result)),
         enumerate_sources 1 (sr_results result)))"

section \<open>A turn: its environment, its state and its events\<close>

datatype stage = Hil | Research

record artifact =
  a_type :: string
  a_title :: string
  a_html_content :: string
  a_file_path :: string
  a_file_size_kb :: nat

text \<open>
  The \<open>ChatResponse\<close>, without its identifiers, clock readings and model settings.
\<close>

record chat_response =
  cr_user_message :: string
  cr_assistant_message :: string
  cr_thinking_steps :: "thinking_step list option"
  cr_sources :: "source list option"
  cr_mode :: string
  cr_used_tools :: bool
  cr_has_code :: bool
  cr_has_web_results :: bool
  cr_prompt_tokens :: "int option"
  cr_artifact :: "artifact option"

datatype event =
    Thinking_step thinking_step
  | Stage_switch
  | Cancelled nat "stage option"
  | Error string
  | Complete chat_response

datatype mcp_return = Mcp_ok string | Mcp_failed string

text \<open>
  What a turn takes from outside. The cancel flag is read at the top of an iteration,
  so it is given by iteration; so are the provider's answers. A tool call is given
  by the step counter. \<open>e_tool\<close> stands for every tool of the registry other than
  the web search, the external tools and the compaction: its result is the text
  that \<open>json.dumps\<close> or \<open>str\<close> makes of it. \<open>e_compact_keep\<close> binds the arguments
  of a \<open>compact_context\<close> call to \<open>keep_recent_user_messages\<close>. The texts of
  \<open>StartResearchTool\<close>'s guidance, of the blog prompt with the draft and the notes
  filled in, and of the context-usage note are given, as is each yes or no that the
  configuration or the operating system decides.
\<close>

record agent_env =
  e_max_iterations :: nat
  e_cancel_flag :: "nat \<Rightarrow> bool"
  e_chat :: "nat \<Rightarrow> message list \<Rightarrow> exn + llm_response"
  e_final_chat :: "message list \<Rightarrow> exn + llm_response"
  e_json_loads :: "string \<Rightarrow> string + json"
  e_web_search :: "nat \<Rightarrow> json \<Rightarrow> exn + search_result"
  e_mcp :: "nat \<Rightarrow> string \<Rightarrow> json \<Rightarrow> exn + mcp_return"
  e_tool :: "nat \<Rightarrow> string \<Rightarrow> json \<Rightarrow> exn + string"
  e_compact :: compact_env
  e_compact_keep :: "json \<Rightarrow> exn + int"
  e_compact_dump :: "compact_result \<Rightarrow> string"
  e_has_e2b_key :: bool
  e_workspace_dir :: "path option"
  e_mcp_tools :: "(string \<times> string) list"
  e_guidance :: string
  e_blog_prompt :: string
  e_context_info :: "int \<Rightarrow> string"
  e_artifact_writable :: bool
  e_writable :: bool

text \<open>
  The state of a turn: the message manager and its file, the locals of the stream
  function, \<open>self.current_sources\<close>, \<open>self.stage\<close> and \<open>self.tools\<close> (the names
  registered), the events yielded so far, and the names of the tools whose
  \<open>execute\<close> was called, in order.
\<close>

record turn =
  t_manager :: message_manager
  t_disk :: disk
  t_thinking_steps :: "thinking_step list"
  t_step_counter :: nat
  t_last_prompt_tokens :: int
  t_current_sources :: "source list"
  t_stage :: stage
  t_tools :: "string list"
  t_events :: "event list"
  t_executed :: "string list"

definition yield :: "event \<Rightarrow> turn \<Rightarrow> turn" where
  "yield ev st = st\<lparr>t_events := t_events st @ [ev]\<rparr>"

definition log_user :: "agent_env \<Rightarrow> string \<Rightarrow> turn \<Rightarrow> turn" where
  "log_user env c st =
     (case add_user_message (e_writable env) c (t_manager st) (t_disk st) of
        (m, d) \<Rightarrow> st\<lparr>t_manager := m, t_disk := d\<rparr>)"

definition log_assistant ::
  "agent_env \<Rightarrow> string option \<Rightarrow> tool_call list \<Rightarrow> turn \<Rightarrow> exn + turn" where
  "log_assistant env c tcs st =
     (case add_assistant_message (e_writable env) c tcs (t_manager st) (t_disk st) of
        Inl e \<Rightarrow> Inl e
      | Inr (m, d) \<Rightarrow> Inr (st\<lparr>t_manager := m, t_disk := d\<rparr>))"

definition log_tool_result :: "agent_env \<Rightarrow> string \<Rightarrow> string \<Rightarrow> turn \<Rightarrow> turn" where
  "log_tool_result env call_id c st =
     (case add_tool_result (e_writable env) call_id c (t_manager st) (t_disk st) of
        (m, d) \<Rightarrow> st\<lparr>t_manager := m, t_disk := d\<rparr>)"

subsection \<open>The tool registries\<close>

definition mcp_names :: "agent_env \<Rightarrow> string list" where
  "mcp_names env = map (\<lambda>(server, name). ''mcp_'' @ server @ ''_'' @ name) (e_mcp_tools env)"

definition chat_tools :: "agent_env \<Rightarrow> string list" where
  "chat_tools env =
     [''web_search'']
     @ (if e_has_e2b_key env then [''execute_python''] else [])
     @ (if e_workspace_dir env \<noteq> None then [''file_read''] else [])
     @ mcp_names env"

definition tools_hil :: "string list" where
  "tools_hil = [''web_search'', ''start_research'']"

definition tools_research :: "agent_env \<Rightarrow> string list" where
  "tools_research env =
     [''web_search'', ''stop_answer'', ''compact_context'']
     @ (if e_has_e2b_key env then [''execute_python''] else [])
     @ (if e_workspace_dir env \<noteq> None
        then [''file_read'', ''file_write'', ''file_list'', ''research_assistant''] else [])
     @ mcp_names env"

definition stage_tools :: "agent_env \<Rightarrow> stage \<Rightarrow> string list" where
  "stage_tools env s = (case s of Hil \<Rightarrow> tools_hil | Research \<Rightarrow> tools_research env)"

subsection \<open>\<open>_execute_tool\<close>\<close>

text \<open>
  The result text of one tool call and the state after it. \<open>numbered\<close> tells Chat
  Mode's processing of a web search from Agent Mode's. A failure to parse the
  arguments and a name that is not registered give their texts without a call.
  \<open>call_tool\<close> is the \<open>try\<close> block around \<open>tool.execute\<close> and the handling of
  its result by the name of the tool; an exception of the tool is caught there and
  gives \<open>Tool execution failed\<close>.
\<close>

definition call_tool :: "agent_env \<Rightarrow> bool \<Rightarrow> string \<Rightarrow> json \<Rightarrow> turn \<Rightarrow> string \<times> turn" where
  "call_tool env numbered tool_name tool_args st =
     (if tool_name = ''web_search'' then
        (case e_web_search env (t_step_counter st) tool_args of
           Inl e \<Rightarrow> (''Tool execution failed: '' @ str_exn e, st)
         | Inr result \<Rightarrow>
             (case process_web_search numbered result (t_current_sources st) of
                (formatted_text, cur) \<Rightarrow> (formatted_text, st\<lparr>t_current_sources := cur\<rparr>)))
      else if startswith tool_name ''mcp_'' then
        (case e_mcp env (t_step_counter st) tool_name tool_args of
           Inl e \<Rightarrow> (''Tool execution failed: '' @ str_exn e, st)
         | Inr (Mcp_ok out) \<Rightarrow> (out, st)
         | Inr (Mcp_failed error_msg) \<Rightarrow> (''Error: '' @ error_msg, st))
      else if tool_name = ''compact_context'' then
        (case e_compact_keep env tool_args of
           Inl e \<Rightarrow> (''Tool execution failed: '' @ str_exn e, st)
         | Inr k \<Rightarrow>
             (case compact_execute (e_compact env) k (Some (t_manager st)) (t_disk st) of
                (r, m, d) \<Rightarrow>
                  (e_compact_dump env r,
                   st\<lparr>t_manager := (case m of None \<Rightarrow> t_manager st | Some mm \<Rightarrow> mm),
                      t_disk := d\<rparr>)))
      else
        (case e_tool env (t_step_counter st) tool_name tool_args of
           Inl e \<Rightarrow> (''Tool execution failed: '' @ str_exn e, st)
         | Inr result_str \<Rightarrow> (result_str, st)))"

definition execute_tool :: "agent_env \<Rightarrow> bool \<Rightarrow> tool_call \<Rightarrow> turn \<Rightarrow> string \<times> turn" where
  "execute_tool env numbered tool_call st =
     (let tool_name = tc_name tool_call in
      case e_json_loads env (tc_arguments tool_call) of
        Inl e \<Rightarrow> (''Failed to parse tool arguments: '' @ e, st)
      | Inr tool_args \<Rightarrow>
          if tool_name \<notin> set (t_tools st) then
            (''Tool '' @ [CHR 0x27] @ tool_name @ ''' not found'', st)
          else
            call_tool env numbered tool_name tool_args
              (st\<lparr>t_executed := t_executed st @ [tool_name]\<rparr>))"

subsection \<open>The loop over the tool calls of one response\<close>

text \<open>
  One pass of \<open>for tool_call in tool_calls\<close>: the counter goes up, the arguments
  are parsed for display (unparsable ones are kept raw), the tool runs, the step is
  built, recorded and yielded, and the tool message is appended. Building the step
  can raise; then the loop is left with the exception.
\<close>

definition run_tool_call ::
  "agent_env \<Rightarrow> bool \<Rightarrow> string option \<Rightarrow> tool_call \<Rightarrow> turn \<Rightarrow> exn option \<times> turn" where
  "run_tool_call env numbered reasoning' tool_call st =
     (let st1 = st\<lparr>t_step_counter := t_step_counter st + 1\<rparr>;
          tool_args = (case e_json_loads env (tc_arguments tool_call) of
                         Inl e \<Rightarrow> JDict [(''raw'', JStr (tc_arguments tool_call))]
                       | Inr a \<Rightarrow> a)
      in case execute_tool env numbered tool_call st1 of
           (tool_result, st2) \<Rightarrow>
             (case create_thinking_step (t_step_counter st1) (tc_name tool_call) tool_args
                     tool_result reasoning' of
                Inl e \<Rightarrow> (Some e, st2)
              | Inr thinking_step \<Rightarrow>
                  (None,
                   log_tool_result env (tc_id tool_call) tool_result
                     (yield (Thinking_step thinking_step)
                        (st2\<lparr>t_thinking_steps := t_thinking_steps st2 @ [thinking_step]\<rparr>)))))"

fun run_tool_calls ::
  "agent_env \<Rightarrow> bool \<Rightarrow> string option \<Rightarrow> tool_call list \<Rightarrow> turn \<Rightarrow> exn option \<times> turn" where
  "run_tool_calls env numbered reasoning' [] st = (None, st)"
| "run_tool_calls env numbered reasoning' (tc # tcs) st =
     (case run_tool_call env numbered reasoning' tc st of
        (Some e, st') \<Rightarrow> (Some e, st')
      | (None, st') \<Rightarrow> run_tool_calls env numbered reasoning' tcs st')"

subsection \<open>The response envelope\<close>

definition build_response ::
  "string \<Rightarrow> string \<Rightarrow> string \<Rightarrow> bool \<Rightarrow> artifact option \<Rightarrow> turn \<Rightarrow> chat_response" where
  "build_response mode user_message assistant_message has_code' artifact' st =
     \<lparr>cr_user_message = user_message,
      cr_assistant_message = assistant_message,
      cr_thinking_steps = (if t_thinking_steps st = [] then None else Some (t_thinking_steps st)),
      cr_sources = (if t_current_sources st = [] then None else Some (t_current_sources st)),
      cr_mode = mode,
      cr_used_tools = (t_thinking_steps st \<noteq> []),
      cr_has_code = has_code',
      cr_has_web_results = list_ex (\<lambda>s. ts_tool s = ''web_search'') (t_thinking_steps st),
      cr_prompt_tokens = (if t_last_prompt_tokens st > 0 then Some (t_last_prompt_tokens st) else None),
      cr_artifact = artifact'\<rparr>"

definition error_text :: "exn \<Rightarrow> string" where
  "error_text e = ''Error during processing: '' @ str_exn e"

definition track_usage :: "llm_response \<Rightarrow> turn \<Rightarrow> turn" where
  "track_usage response st =
     (case usage_prompt_tokens response of
        None \<Rightarrow> st
      | Some n \<Rightarrow> st\<lparr>t_last_prompt_tokens := n\<rparr>)"

section \<open>\<open>ChatModeAgent.chat_stream\<close>\<close>

datatype 'a flow = Continue | Break 'a | Raise exn

text \<open>
  The body of one iteration after the cancellation check: the call of the provider,
  then either the tool calls of the answer or the final text. The log line of the
  final answer takes \<open>len(content)\<close>, which raises when the content is \<open>None\<close>.
\<close>

definition chat_iteration :: "agent_env \<Rightarrow> nat \<Rightarrow> turn \<Rightarrow> string flow \<times> turn" where
  "chat_iteration env iteration st =
     (case e_chat env iteration (messages (t_manager st)) of
        Inl e \<Rightarrow> (Raise e, st)
      | Inr response \<Rightarrow>
          (let st1 = track_usage response st;
               content' = r_content response;
               tool_calls' = r_tool_calls response
           in if tool_calls' \<noteq> [] then
                (case log_assistant env (if truthy content' then content' else None) tool_calls' st1 of
                   Inl e \<Rightarrow> (Raise e, st1)
                 | Inr st2 \<Rightarrow>
                     (case run_tool_calls env True None tool_calls' st2 of
                        (Some e, st3) \<Rightarrow> (Raise e, st3)
                      | (None, st3) \<Rightarrow> (Continue, st3)))
              else
                (case content' of
                   None \<Rightarrow> (Raise (TypeError (''object of type 'NoneType' has no len()'')), st1)
                 | Some c \<Rightarrow>
                     (let final_response =
                            (if c \<noteq> [] then c else ''I don't have a response at this time.'')
                      in case log_assistant env (Some final_response) [] st1 of
                           Inl e \<Rightarrow> (Raise e, st1)
                         | Inr st2 \<Rightarrow> (Break final_response, st2)))))"

datatype chat_exit =
    Chat_cancelled
  | Chat_answered string
  | Chat_exhausted
  | Chat_raised exn

text \<open>
  The \<open>while\<close> loop, from the value of \<open>iteration\<close> before the test. A set cancel
  flag yields \<open>cancelled\<close> and leaves the loop with \<open>break\<close>.
\<close>

function chat_loop :: "agent_env \<Rightarrow> nat \<Rightarrow> turn \<Rightarrow> chat_exit \<times> turn" where
  "chat_loop env iteration st =
     (if iteration < e_max_iterations env then
        (if e_cancel_flag env (Suc iteration) then
           (Chat_cancelled, yield (Cancelled (length (t_thinking_steps st)) None) st)
         else
           (case chat_iteration env (Suc iteration) st of
              (Raise e, st') \<Rightarrow> (Chat_raised e, st')
            | (Break final_response, st') \<Rightarrow> (Chat_answered final_response, st')
            | (Continue, st') \<Rightarrow> chat_loop env (Suc iteration) st'))
      else (Chat_exhausted, st))"
  by pat_completeness auto
termination
  by (relation "measure (\<lambda>(env, iteration, st). e_max_iterations env - iteration)") auto

declare chat_loop.simps [simp del]

text \<open>
  \<open>chat_stream\<close>: nothing is yielded yet, the sources are reset and the user
  message is appended; an exception
  in the loop is logged as an assistant message and ends the turn with \<open>error\<close>;
  every other way out of the loop goes on to build the response from
  \<open>final_response\<close> and to yield \<open>complete\<close>.
\<close>

definition chat_final_response :: "chat_exit \<Rightarrow> string" where
  "chat_final_response x =
     (case x of
        Chat_cancelled \<Rightarrow> ''Response stopped by user.''
      | Chat_answered a \<Rightarrow> a
      | _ \<Rightarrow> [])"

definition chat_stream :: "agent_env \<Rightarrow> string \<Rightarrow> turn \<Rightarrow> turn" where
  "chat_stream env message' st0 =
     (let st1 = log_user env message'
                  (st0\<lparr>t_thinking_steps := [], t_step_counter := 0, t_last_prompt_tokens := 0,
                       t_current_sources := [], t_tools := chat_tools env,
                       t_events := [], t_executed := []\<rparr>)
      in case chat_loop env 0 st1 of
           (Chat_raised e, st) \<Rightarrow>
             (case log_assistant env (Some (error_text e)) [] st of
                Inl _ \<Rightarrow> yield (Error (error_text e)) st
              | Inr st' \<Rightarrow> yield (Error (error_text e)) st')
         | (x, st) \<Rightarrow>
             yield (Complete (build_response ''chat'' message' (chat_final_response x)
                                (list_ex ts_has_code (t_thinking_steps st)) None st)) st)"

section \<open>Extraction of the HTML artifact\<close>

text \<open>
  White space as \<open>\s\<close> and \<open>str.strip()\<close> take it: the characters for which
  \<open>str.isspace\<close> holds, each by its encoding. A text that ends with the bytes of
  one of them ends with that character. Matching that ignores case compares the
  lowered texts; the letters of the patterns used here have no other variants.
\<close>

definition white_space :: "string list" where
  "white_space =
     map (\<lambda>b. [b])
       [CHR 0x09, CHR 0x0A, CHR 0x0B, CHR 0x0C, CHR 0x0D, CHR 0x1C, CHR 0x1D, CHR 0x1E,
        CHR 0x1F, CHR 0x20]
     @ [[CHR 0xC2, CHR 0x85], [CHR 0xC2, CHR 0xA0], [CHR 0xE1, CHR 0x9A, CHR 0x80]]
     @ map (\<lambda>b. [CHR 0xE2, CHR 0x80, b])
         [CHR 0x80, CHR 0x81, CHR 0x82, CHR 0x83, CHR 0x84, CHR 0x85, CHR 0x86, CHR 0x87,
          CHR 0x88, CHR 0x89, CHR 0x8A, CHR 0xA8, CHR 0xA9, CHR 0xAF]
     @ [[CHR 0xE2, CHR 0x81, CHR 0x9F], [CHR 0xE3, CHR 0x80, CHR 0x80]]"

text \<open>
  The number of bytes of the white space character at the head of a text, or 0; and
  the text without the white space at its head.
\<close>

fun space_len :: "string list \<Rightarrow> string \<Rightarrow> nat" where
  "space_len [] s = 0"
| "space_len (w # ws) s = (if w \<noteq> [] \<and> prefix w s then length w else space_len ws s)"

function strip_left :: "string list \<Rightarrow> string \<Rightarrow> string" where
  "strip_left ws s =
     (if space_len ws s = 0 then s else strip_left ws (drop (space_len ws s) s))"
  by pat_completeness auto
termination
proof (relation "measure (\<lambda>(ws, s). length s)")
  show "wf (measure (\<lambda>(ws, s). length s))" by simp
next
  fix ws :: "string list" and s :: string
  assume n: "space_len ws s \<noteq> 0"
  have "space_len ws s \<noteq> 0 \<longrightarrow> s \<noteq> []"
    by (induction ws) auto
  with n have "s \<noteq> []" by simp
  with n have "length (drop (space_len ws s) s) < length s" by simp
  then show "((ws, drop (space_len ws s) s), (ws, s)) \<in> measure (\<lambda>(ws, s). length s)" by simp
qed

declare strip_left.simps [simp del]

definition lstrip :: "string \<Rightarrow> string" where
  "lstrip s = strip_left white_space s"

definition rstrip :: "string \<Rightarrow> string" where
  "rstrip s = rev (strip_left (map rev white_space) (rev s))"

definition strip :: "string \<Rightarrow> string" where
  "strip s = rstrip (lstrip s)"

text \<open>\<open>len\<close> of a text counts its characters: the bytes that do not continue one.\<close>

definition py_len :: "string \<Rightarrow> nat" where
  "py_len s = length (filter (\<lambda>c. \<not> (128 \<le> (of_char c :: nat) \<and> (of_char c :: nat) < 192)) s)"

definition ci_prefix :: "string \<Rightarrow> string \<Rightarrow> bool" where
  "ci_prefix p s = prefix (py_lower p) (py_lower s)"

text \<open>
  \<open>re.search\<close>: the leftmost position at which the pattern matches, with what it
  matched there; \<open>at\<close> matches the pattern at the head of a text.
\<close>

fun search_from :: "(string \<Rightarrow> 'a option) \<Rightarrow> string \<Rightarrow> (nat \<times> 'a) option" where
  "search_from at [] = (case at [] of None \<Rightarrow> None | Some g \<Rightarrow> Some (0, g))"
| "search_from at (c # cs) =
     (case at (c # cs) of
        Some g \<Rightarrow> Some (0, g)
      | None \<Rightarrow> (case search_from at cs of None \<Rightarrow> None | Some (i, g) \<Rightarrow> Some (Suc i, g)))"

text \<open>
  The lazy \<open>.*?</html>\<close> followed by the rest of the pattern: the least number of
  characters to skip so that \<open></html>\<close> follows and the rest matches after it.
\<close>

fun find_close :: "(string \<Rightarrow> bool) \<Rightarrow> string \<Rightarrow> nat option" where
  "find_close rest [] = None"
| "find_close rest (c # cs) =
     (if ci_prefix ''</html>'' (c # cs) \<and> rest (drop 7 (c # cs)) then Some 0
      else map_option Suc (find_close rest cs))"

text \<open>
  The first pattern, the document inside a fenced block; its group is the document.
  The second pattern, the bare document.
\<close>

definition fenced_at :: "string \<Rightarrow> string option" where
  "fenced_at s =
     (if ci_prefix ''```html'' s then
        (let a = lstrip (drop 7 s) in
         if ci_prefix ''<!DOCTYPE html>'' a then
           (case find_close (\<lambda>r. prefix ''```'' (lstrip r)) (drop 15 a) of
              None \<Rightarrow> None
            | Some e \<Rightarrow> Some (take (15 + e + 7) a))
         else None)
      else None)"

definition bare_at :: "string \<Rightarrow> string option" where
  "bare_at s =
     (if ci_prefix ''<!DOCTYPE html>'' s then
        (case find_close (\<lambda>r. True) (drop 15 s) of
           None \<Rightarrow> None
         | Some e \<Rightarrow> Some (take (15 + e + 7) s))
      else None)"

text \<open>
  The title pattern \<open><h1[^>]*>(.*?)</h1>\<close>, where the dot does not match a newline,
  and the removal of tags \<open><[^>]+>\<close> from the title.
\<close>

fun until_h1_close :: "string \<Rightarrow> string option" where
  "until_h1_close [] = None"
| "until_h1_close (c # cs) =
     (if ci_prefix ''</h1>'' (c # cs) then Some []
      else if c = CHR 0x0A then None
      else map_option ((#) c) (until_h1_close cs))"

definition h1_at :: "string \<Rightarrow> string option" where
  "h1_at s =
     (if ci_prefix ''<h1'' s then
        (case dropWhile (\<lambda>c. c \<noteq> CHR ''>'') (drop 3 s) of
           [] \<Rightarrow> None
         | _ # b \<Rightarrow> until_h1_close b)
      else None)"

function remove_tags :: "string \<Rightarrow> string" where
  "remove_tags [] = []"
| "remove_tags (c # cs) =
     (if c = CHR ''<'' \<and> takeWhile (\<lambda>x. x \<noteq> CHR ''>'') cs \<noteq> []
         \<and> dropWhile (\<lambda>x. x \<noteq> CHR ''>'') cs \<noteq> []
      then remove_tags (tl (dropWhile (\<lambda>x. x \<noteq> CHR ''>'') cs))
      else c # remove_tags cs)"
  by pat_completeness auto
termination
proof (relation "measure length")
  show "wf (measure length)" by simp
next
  fix c :: char and cs :: string
  have "length (dropWhile (\<lambda>x. x \<noteq> CHR ''>'') cs) \<le> length cs"
    by (rule length_dropWhile_le)
  then have "length (tl (dropWhile (\<lambda>x. x \<noteq> CHR ''>'') cs)) \<le> length cs"
    by simp
  then show "(tl (dropWhile (\<lambda>x. x \<noteq> CHR ''>'') cs), c # cs) \<in> measure length"
    by simp
next
  fix c :: char and cs :: string
  show "(cs, c # cs) \<in> measure length" by simp
qed

text \<open>
  The extraction after the loop. It is tried only when the final-answer phase was
  reached and the final text contains \<open><!DOCTYPE html>\<close> as written. The result is
  the artifact, if any, and the assistant message; writing \<open>artifact.html\<close> can
  raise. Without a workspace a document that was found is dropped.
\<close>

definition extract_artifact ::
  "agent_env \<Rightarrow> bool \<Rightarrow> string \<Rightarrow> exn + artifact option \<times> string" where
  "extract_artifact env ready_for_final_answer final_response =
     (if ready_for_final_answer \<and> py_in ''<!DOCTYPE html>'' final_response then
        (case (case search_from fenced_at final_response of
                 Some m \<Rightarrow> Some m
               | None \<Rightarrow> search_from bare_at final_response) of
           None \<Rightarrow> Inr (None, final_response)
         | Some (start, html_group) \<Rightarrow>
             (let html_code = strip html_group;
                  overview_text =
                    strip (str_replace (str_replace (strip (take start final_response))
                                          ''```html'' []) ''```'' []);
                  blog_title =
                    strip (remove_tags
                             (case search_from h1_at html_code of
                                None \<Rightarrow> ''Research Report''
                              | Some (_, t) \<Rightarrow> t))
              in case e_workspace_dir env of
                   None \<Rightarrow> Inr (None, final_response)
                 | Some ws \<Rightarrow>
                     if \<not> e_artifact_writable env then
                       Inl (RuntimeError ''cannot write artifact.html'')
                     else
                       Inr (Some \<lparr>a_type = ''html_blog'', a_title = blog_title,
                                  a_html_content = html_code,
                                  a_file_path = path_str (ws @ [''artifact.html'']),
                                  a_file_size_kb = py_len html_code div 1024\<rparr>,
                            if overview_text \<noteq> [] then overview_text
                            else ''Research completed. See interactive report below.'')))
      else Inr (None, final_response))"

section \<open>\<open>AgentModeAgent.agent_stream\<close>\<close>

definition AUTO_COMPACT_THRESHOLD :: int where
  "AUTO_COMPACT_THRESHOLD = 280000"

definition STOP_PROMPT :: string where
  "STOP_PROMPT =
     ''Based on all the information gathered above, please provide a comprehensive ''
     @ ''answer to the user's query. Include relevant citations and references to ''
     @ ''the sources you've accessed. Structure your response clearly and be thorough.''"

definition ERROR_PROMPT :: string where
  "ERROR_PROMPT =
     ''ERROR: In research stage, you must call tools.\<newline>\<newline>''
     @ ''RULES:\<newline>''
     @ ''1. Need more info '' @ [CHR 0xE2, CHR 0x86, CHR 0x92]
     @ '' call web_search, execute_python, file_write, etc.\<newline>''
     @ ''2. Ready to answer '' @ [CHR 0xE2, CHR 0x86, CHR 0x92] @ '' call stop_answer\<newline>\<newline>''
     @ ''What tool do you want to use?''"

definition MAXED_OUT :: string where
  "MAXED_OUT = ''I need more iterations to complete this request.''"

definition none_has_no_execute :: exn where
  "none_has_no_execute =
     AttributeError ('''NoneType' object has no attribute 'execute'' @ [CHR 0x27])"

definition reset_to_hil :: "turn \<Rightarrow> turn" where
  "reset_to_hil st = st\<lparr>t_stage := Hil, t_tools := tools_hil\<rparr>"

definition switch_to_research_stage :: "agent_env \<Rightarrow> turn \<Rightarrow> turn" where
  "switch_to_research_stage env st = st\<lparr>t_stage := Research, t_tools := tools_research env\<rparr>"

definition has_call :: "string \<Rightarrow> tool_call list \<Rightarrow> bool" where
  "has_call name tcs = list_ex (\<lambda>tc. tc_name tc = name) tcs"

text \<open>The compaction that the loop forces once the context is past the threshold.\<close>

definition forced_compaction :: "agent_env \<Rightarrow> turn \<Rightarrow> turn" where
  "forced_compaction env st =
     (if t_last_prompt_tokens st > AUTO_COMPACT_THRESHOLD \<and> ''compact_context'' \<in> set (t_tools st)
      then
        (case compact_execute (e_compact env) 10 (Some (t_manager st)) (t_disk st) of
           (r, m, d) \<Rightarrow>
             st\<lparr>t_manager := (case m of None \<Rightarrow> t_manager st | Some mm \<Rightarrow> mm), t_disk := d\<rparr>)
      else st)"

datatype agent_flow = A_continue | A_break | A_return | A_raise exn

text \<open>
  The branches of one iteration. A response with tool calls is looked through for
  \<open>start_research\<close> first and for \<open>stop_answer\<close> second; each is fetched from the
  current registry with \<open>get\<close> and executed, which raises when the registry does
  not have it. Only a response with neither has its calls run.
\<close>

definition on_start_research :: "agent_env \<Rightarrow> turn \<Rightarrow> agent_flow \<times> turn" where
  "on_start_research env st =
     (if ''start_research'' \<notin> set (t_tools st) then (A_raise none_has_no_execute, st)
      else
        (A_continue,
         log_user env (e_guidance env)
           (yield Stage_switch
              (switch_to_research_stage env
                 (st\<lparr>t_executed := t_executed st @ [''start_research'']\<rparr>)))))"

definition on_stop_answer :: "agent_env \<Rightarrow> turn \<Rightarrow> agent_flow \<times> turn" where
  "on_stop_answer env st =
     (if ''stop_answer'' \<notin> set (t_tools st) then (A_raise none_has_no_execute, st)
      else
        (A_break,
         log_user env
           (if t_stage st = Research then e_blog_prompt env else STOP_PROMPT)
           (st\<lparr>t_executed := t_executed st @ [''stop_answer'']\<rparr>)))"

definition on_normal_tools ::
  "agent_env \<Rightarrow> string option \<Rightarrow> tool_call list \<Rightarrow> turn \<Rightarrow> agent_flow \<times> turn" where
  "on_normal_tools env reasoning' tool_calls' st =
     (case log_assistant env reasoning' tool_calls' st of
        Inl e \<Rightarrow> (A_raise e, st)
      | Inr st2 \<Rightarrow>
          (case run_tool_calls env False reasoning' tool_calls' st2 of
             (Some e, st3) \<Rightarrow> (A_raise e, st3)
           | (None, st3) \<Rightarrow>
               (A_continue,
                forced_compaction env
                  (if t_last_prompt_tokens st3 > 0
                   then log_user env (e_context_info env (t_last_prompt_tokens st3)) st3
                   else st3))))"

definition on_no_tool_calls ::
  "agent_env \<Rightarrow> string \<Rightarrow> string option \<Rightarrow> string option \<Rightarrow> turn \<Rightarrow> agent_flow \<times> turn" where
  "on_no_tool_calls env message' reasoning' content' st =
     (if t_stage st = Hil then
        (let final_response =
               (case (if truthy content' then content' else reasoning') of
                  None \<Rightarrow> ''I need more information to provide an answer.''
                | Some t \<Rightarrow> t)
         in case log_assistant env (Some final_response) [] st of
              Inl e \<Rightarrow> (A_raise e, st)
            | Inr st2 \<Rightarrow>
                (A_return,
                 yield (Complete (build_response ''chat'' message' final_response False None st2))
                   st2))
      else
        (case (if truthy reasoning' \<or> truthy content'
               then log_assistant env (if truthy reasoning' then reasoning' else content') [] st
               else Inr st) of
           Inl e \<Rightarrow> (A_raise e, st)
         | Inr st2 \<Rightarrow> (A_continue, log_user env ERROR_PROMPT st2)))"

text \<open>The body of the inner \<open>try\<close> of one iteration.\<close>

definition agent_body :: "agent_env \<Rightarrow> nat \<Rightarrow> string \<Rightarrow> turn \<Rightarrow> agent_flow \<times> turn" where
  "agent_body env iteration message' st =
     (case e_chat env iteration (messages (t_manager st)) of
        Inl e \<Rightarrow> (A_raise e, st)
      | Inr response \<Rightarrow>
          (let st1 = track_usage response st;
               reasoning' = (if truthy (reasoning response) then reasoning response else None);
               content' = r_content response;
               tool_calls' = r_tool_calls response
           in
           if tool_calls' \<noteq> [] then
             (if has_call ''start_research'' tool_calls' then on_start_research env st1
              else if has_call ''stop_answer'' tool_calls' then on_stop_answer env st1
              else on_normal_tools env reasoning' tool_calls' st1)
           else on_no_tool_calls env message' reasoning' content' st1))"

text \<open>The \<open>except\<close> of the iteration: the error is logged, \<open>error\<close> is yielded, return.\<close>

definition agent_iteration :: "agent_env \<Rightarrow> nat \<Rightarrow> string \<Rightarrow> turn \<Rightarrow> agent_flow \<times> turn" where
  "agent_iteration env iteration message' st =
     (case agent_body env iteration message' st of
        (A_raise e, st') \<Rightarrow>
          (A_return,
           yield (Error (error_text e))
             (case log_assistant env (Some (error_text e)) [] st' of
                Inl _ \<Rightarrow> st'
              | Inr st'' \<Rightarrow> st''))
      | r \<Rightarrow> r)"

datatype agent_exit = Agent_cancelled | Agent_ready | Agent_exhausted | Agent_returned

function agent_loop :: "agent_env \<Rightarrow> nat \<Rightarrow> string \<Rightarrow> turn \<Rightarrow> agent_exit \<times> turn" where
  "agent_loop env iteration message' st =
     (if iteration < e_max_iterations env then
        (if e_cancel_flag env (Suc iteration) then
           (let st1 = (if t_stage st = Research then reset_to_hil st else st)
            in (Agent_cancelled,
                yield (Cancelled (length (t_thinking_steps st1)) (Some (t_stage st1))) st1))
         else
           (case agent_iteration env (Suc iteration) message' st of
              (A_continue, st') \<Rightarrow> agent_loop env (Suc iteration) message' st'
            | (A_break, st') \<Rightarrow> (Agent_ready, st')
            | (_, st') \<Rightarrow> (Agent_returned, st')))
      else (Agent_exhausted, st))"
  by pat_completeness auto
termination
  by (relation "measure (\<lambda>(env, iteration, message', st). e_max_iterations env - iteration)") auto

declare agent_loop.simps [simp del]

datatype outcome = Returned | Propagated exn

text \<open>
  What follows the loop when it was not left by \<open>return\<close>: the artifact extraction,
  the response and \<open>complete\<close>.
\<close>

definition agent_finish :: "agent_env \<Rightarrow> string \<Rightarrow> bool \<Rightarrow> string \<Rightarrow> turn \<Rightarrow> outcome \<times> turn" where
  "agent_finish env message' ready_for_final_answer final_response st =
     (case extract_artifact env ready_for_final_answer final_response of
        Inl e \<Rightarrow> (Propagated e, st)
      | Inr (artifact', assistant_message) \<Rightarrow>
          (Returned,
           yield (Complete (build_response ''agent'' message' assistant_message
                              (list_ex ts_has_code (t_thinking_steps st)) artifact' st)) st))"

text \<open>
  \<open>agent_stream\<close>. After \<open>stop_answer\<close> the final answer is asked for without
  tools; an exception of that call, a missing or empty content, or a failed write of
  the artifact leaves the function, since nothing catches it there. Every other way
  out of the loop but \<open>return\<close>, the cancellation too, takes the branch for the
  exhausted iterations.
\<close>

definition agent_stream :: "agent_env \<Rightarrow> string \<Rightarrow> turn \<Rightarrow> outcome \<times> turn" where
  "agent_stream env message' st0 =
     (let st1 = log_user env message'
                  (st0\<lparr>t_thinking_steps := [], t_step_counter := 0, t_last_prompt_tokens := 0,
                       t_current_sources := [], t_tools := stage_tools env (t_stage st0),
                       t_events := [], t_executed := []\<rparr>)
      in case agent_loop env 0 message' st1 of
           (Agent_returned, st) \<Rightarrow> (Returned, st)
         | (Agent_ready, st) \<Rightarrow>
             (case e_final_chat env (messages (t_manager st)) of
                Inl e \<Rightarrow> (Propagated e, st)
              | Inr response \<Rightarrow>
                  (let st2 = track_usage response st in
                   case log_assistant env (r_content response) [] st2 of
                     Inl e \<Rightarrow> (Propagated e, st2)
                   | Inr st3 \<Rightarrow>
                       agent_finish env message' True
                         (case r_content response of None \<Rightarrow> [] | Some t \<Rightarrow> t)
                         (if t_stage st3 = Research then reset_to_hil st3 else st3)))
         | (_, st) \<Rightarrow>
             (case log_assistant env (Some MAXED_OUT) [] st of
                Inl e \<Rightarrow> (Propagated e, st)
              | Inr st' \<Rightarrow> agent_finish env message' False MAXED_OUT st'))"

section \<open>The terminal events of a stream\<close>

datatype kind = K_thinking_step | K_stage_switch | K_cancelled | K_error | K_complete

fun kind_of :: "event \<Rightarrow> kind" where
  "kind_of (Thinking_step _) = K_thinking_step"
| "kind_of Stage_switch = K_stage_switch"
| "kind_of (Cancelled _ _) = K_cancelled"
| "kind_of (Error _) = K_error"
| "kind_of (Complete _) = K_complete"

fun is_terminal :: "event \<Rightarrow> bool" where
  "is_terminal (Thinking_step _) = False"
| "is_terminal Stage_switch = False"
| "is_terminal _ = True"

definition terminals :: "event list \<Rightarrow> kind list" where
  "terminals evs = map kind_of (filter is_terminal evs)"

section \<open>Example turns\<close>

definition answer :: "string \<Rightarrow> llm_response" where
  "answer t = \<lparr>usage_prompt_tokens = Some 120, reasoning = None, r_content = Some t,
               r_tool_calls = []\<rparr>"

definition proposal :: "tool_call list \<Rightarrow> llm_response" where
  "proposal tcs = \<lparr>usage_prompt_tokens = Some 120, reasoning = None, r_content = None,
                   r_tool_calls = tcs\<rparr>"

definition call :: "string \<Rightarrow> string \<Rightarrow> string \<Rightarrow> tool_call" where
  "call i n a = \<lparr>tc_id = i, tc_type = ''function'', tc_name = n, tc_arguments = a\<rparr>"

definition hit :: "string \<Rightarrow> string \<Rightarrow> search_hit" where
  "hit t u = \<lparr>h_title = t, h_url = u, h_snippet = [], h_age = None, h_cache_path = None\<rparr>"

text \<open>
  An environment in which nothing is cancelled, the provider answers with a text at
  once, every argument text parses to an empty object except \<open>{bad\<close>, and the web
  search finds the same page twice.
\<close>

definition example_env :: agent_env where
  "example_env =
     \<lparr>e_max_iterations = 3,
      e_cancel_flag = (\<lambda>i. False),
      e_chat = (\<lambda>i ms. Inr (answer ''Five.'')),
      e_final_chat = (\<lambda>ms. Inr (answer ''Done.'')),
      e_json_loads = (\<lambda>s. if s = ''{bad'' then Inl ''Expecting property name'' else Inr (JDict [])),
      e_web_search = (\<lambda>n a. Inr \<lparr>sr_query = ''postgres'', sr_search_type = ''auto'',
                         sr_results = [hit ''Release notes'' ''https://example.org/a'',
                                       hit ''Release notes (mirror)'' ''https://example.org/a''],
                         sr_error = None\<rparr>),
      e_mcp = (\<lambda>n t a. Inr (Mcp_ok ''ok'')),
      e_tool = (\<lambda>n t a. Inr ''{}''),
      e_compact = example_compact_env,
      e_compact_keep = (\<lambda>a. Inr 10),
      e_compact_dump = (\<lambda>r. ''{}''),
      e_has_e2b_key = False,
      e_workspace_dir = Some example_ws,
      e_mcp_tools = [],
      e_guidance = ''Research mode.'',
      e_blog_prompt = ''Write the blog.'',
      e_context_info = (\<lambda>n. ''<context_usage />''),
      e_artifact_writable = True,
      e_writable = True\<rparr>"

definition example_turn :: "stage \<Rightarrow> turn" where
  "example_turn s =
     \<lparr>t_manager = \<lparr>messages = [mk_message System (Some ''You are an assistant.'')],
                     persist_dir = None\<rparr>,
      t_disk = Map.empty,
      t_thinking_steps = [], t_step_counter = 0, t_last_prompt_tokens = 0,
      t_current_sources = [], t_stage = s, t_tools = [],
      t_events = [], t_executed = []\<rparr>"

text \<open>The flag is set before the first iteration.\<close>

definition cancelled_env :: agent_env where
  "cancelled_env = example_env\<lparr>e_cancel_flag := (\<lambda>i. True)\<rparr>"

text \<open>The model asks for a web search in every iteration.\<close>

definition searching_env :: agent_env where
  "searching_env =
     example_env\<lparr>e_chat := (\<lambda>i ms. Inr (proposal [call ''c1'' ''web_search'' ''{}'']))\<rparr>"



text \<open>The model proposes a web search together with a control tool.\<close>

definition with_start_research_env :: agent_env where
  "with_start_research_env =
     example_env\<lparr>e_chat := (\<lambda>i ms. if i = 1
        then Inr (proposal [call ''c1'' ''web_search'' ''{}'', call ''c2'' ''start_research'' ''{}''])
        else Inr (proposal [call ''c3'' ''web_search'' ''{}'', call ''c4'' ''stop_answer'' ''{}'']))\<rparr>"

text \<open>
  Two final answers that differ only in the casing of the doctype.
\<close>

definition upper_doc :: string where
  "upper_doc = ''Overview.\<newline>```html\<newline><!DOCTYPE html><h1>Report</h1></html>\<newline>```''"

definition lower_doc :: string where
  "lower_doc = ''Overview.\<newline>```html\<newline><!doctype html><h1>Report</h1></html>\<newline>```''"


text \<open>The model proposes a web search together with \<open>stop_answer\<close>.\<close>

definition with_stop_answer_env :: agent_env where
  "with_stop_answer_env =
     example_env\<lparr>e_chat := (\<lambda>i ms.
        Inr (proposal [call ''c1'' ''web_search'' ''{}'', call ''c2'' ''stop_answer'' ''{}'']))\<rparr>"

section \<open>The sources of a response\<close>

text \<open>
  The indices of a source list are dense when they are 1, 2, ... in this order. The
  sources of an event are those of the response it carries, none for any other event
  and for a response without sources.
\<close>

definition dense_from_one :: "source list \<Rightarrow> bool" where
  "dense_from_one srcs = (map s_idx srcs = [1..<Suc (length srcs)])"

definition response_sources :: "event \<Rightarrow> source list" where
  "response_sources ev =
     (case ev of
        Complete r \<Rightarrow> (case cr_sources r of None \<Rightarrow> [] | Some srcs \<Rightarrow> srcs)
      | _ \<Rightarrow> [])"

definition sources_inv :: "turn \<Rightarrow> bool" where
  "sources_inv st =
     (dense_from_one (t_current_sources st)
      \<and> list_all (\<lambda>ev. dense_from_one (response_sources ev)) (t_events st))"

section \<open>Properties of the string operations\<close>

lemma offsets_set: "set (offsets sub s) = {i. i \<le> length s \<and> prefix sub (drop i s)}"
  by (auto simp: offsets_def less_Suc_eq_le simp del: upt_Suc)

lemma py_in_offsets: "py_in sub s \<longleftrightarrow> offsets sub s \<noteq> []"
proof
  assume "py_in sub s"
  then obtain ps ss where s: "s = ps @ sub @ ss"
    by (auto simp: py_in_def sublist_def)
  then have "length ps \<in> set (offsets sub s)"
    by (simp add: offsets_set)
  then show "offsets sub s \<noteq> []" by auto
next
  assume "offsets sub s \<noteq> []"
  then obtain i where "i \<in> set (offsets sub s)"
    by (cases "offsets sub s") auto
  then have "prefix sub (drop i s)" by (simp add: offsets_set)
  then obtain ss where "drop i s = sub @ ss" by (auto simp: prefix_def)
  then have "s = take i s @ sub @ ss"
    by (metis append_take_drop_id)
  then show "py_in sub s"
    unfolding py_in_def sublist_def by blast
qed

lemma no_offset_scan:
  assumes "old \<noteq> []" and "\<forall>j \<le> length s. \<not> prefix old (drop j s)"
  shows "str_count s old = 0 \<and> str_replace s old new = s"
  using assms(2)
proof (induction s)
  case Nil
  show ?case using assms(1) by (simp add: str_count.simps str_replace.simps)
next
  case (Cons c t)
  have np: "\<not> prefix old (c # t)" using Cons.prems by (metis drop0 le0)
  have "\<forall>j \<le> length t. \<not> prefix old (drop j t)"
  proof (intro allI impI)
    fix j assume "j \<le> length t"
    then have "Suc j \<le> length (c # t)" by simp
    then have "\<not> prefix old (drop (Suc j) (c # t))" using Cons.prems by blast
    then show "\<not> prefix old (drop j t)" by simp
  qed
  then have ih: "str_count t old = 0 \<and> str_replace t old new = t" by (rule Cons.IH)
  show ?case
    using assms(1) np ih
    by (subst str_count.simps, subst str_replace.simps) simp
qed

lemma unique_offset_scan:
  assumes "old \<noteq> []"
  shows "i \<le> length s \<Longrightarrow> prefix old (drop i s) \<Longrightarrow>
         \<forall>j \<le> length s. prefix old (drop j s) \<longrightarrow> j = i \<Longrightarrow>
         str_count s old = 1 \<and> str_replace s old new = take i s @ new @ drop (i + length old) s"
proof (induction s arbitrary: i)
  case Nil
  then show ?case using assms by simp
next
  case (Cons c t)
  show ?case
  proof (cases i)
    case 0
    then have p: "prefix old (c # t)" using Cons.prems(2) by simp
    have "\<forall>j \<le> length (drop (length old) (c # t)). \<not> prefix old (drop j (drop (length old) (c # t)))"
    proof (intro allI impI notI)
      fix j assume j: "j \<le> length (drop (length old) (c # t))"
        and pj: "prefix old (drop j (drop (length old) (c # t)))"
      have len: "length old \<le> length (c # t)" using p by (rule prefix_length_le)
      have "j + length old \<le> length (c # t)" using j len by simp
      moreover have "prefix old (drop (j + length old) (c # t))" using pj by (simp add: add.commute)
      ultimately have "j + length old = i" using Cons.prems(3) by blast
      then show False using 0 assms by simp
    qed
    then have rest: "str_count (drop (length old) (c # t)) old = 0
        \<and> str_replace (drop (length old) (c # t)) old new = drop (length old) (c # t)"
      using assms by (rule no_offset_scan[rotated])
    show ?thesis
      using assms p rest 0
      by (subst str_count.simps, subst str_replace.simps) simp
  next
    case (Suc i')
    have np: "\<not> prefix old (c # t)"
    proof
      assume "prefix old (c # t)"
      then have "prefix old (drop 0 (c # t))" by simp
      then have "0 = i" using Cons.prems(3) by blast
      then show False using Suc by simp
    qed
    have a: "i' \<le> length t" using Cons.prems(1) Suc by simp
    have b: "prefix old (drop i' t)" using Cons.prems(2) Suc by simp
    have c: "\<forall>j \<le> length t. prefix old (drop j t) \<longrightarrow> j = i'"
    proof (intro allI impI)
      fix j assume "j \<le> length t" and "prefix old (drop j t)"
      then have "Suc j \<le> length (c # t)" and "prefix old (drop (Suc j) (c # t))" by simp_all
      then have "Suc j = i" using Cons.prems(3) by blast
      then show "j = i'" using Suc by simp
    qed
    have ih: "str_count t old = 1 \<and> str_replace t old new = take i' t @ new @ drop (i' + length old) t"
      using Cons.IH[OF a b c] .
    show ?thesis
      using assms np ih Suc
      by (subst str_count.simps, subst str_replace.simps) simp
  qed
qed

lemma offsets_single:
  assumes "offsets sub s = [i]"
  shows "i \<le> length s" and "prefix sub (drop i s)"
    and "\<forall>j \<le> length s. prefix sub (drop j s) \<longrightarrow> j = i"
proof -
  have s: "set (offsets sub s) = {i}" using assms by simp
  then have "i \<in> {i. i \<le> length s \<and> prefix sub (drop i s)}" by (simp add: offsets_set)
  then show "i \<le> length s" and "prefix sub (drop i s)" by simp_all
  show "\<forall>j \<le> length s. prefix sub (drop j s) \<longrightarrow> j = i"
  proof (intro allI impI)
    fix j assume "j \<le> length s" and "prefix sub (drop j s)"
    then have "j \<in> set (offsets sub s)" by (simp add: offsets_set)
    then show "j = i" using s by simp
  qed
qed

lemma offsets_empty_sub: "offsets [] s = [0..<Suc (length s)]"
  by (simp add: offsets_def del: upt_Suc)

lemma single_offset_replace:
  assumes "offsets old s = [i]"
  shows "str_count s old = 1 \<and> str_replace s old new = take i s @ new @ drop (i + length old) s"
proof (cases "old = []")
  case True
  then have eq: "[0..<Suc (length s)] = [i]" using assms by (simp only: offsets_empty_sub)
  then have "length [0..<Suc (length s)] = length [i]" by (rule arg_cong)
  then have s: "s = []" by simp
  have "hd [0..<Suc (length s)] = hd [i]" using eq by (rule arg_cong)
  then have "i = 0" using s by simp
  then show ?thesis using True s by (simp add: str_count.simps str_replace.simps)
next
  case False
  then show ?thesis
    using unique_offset_scan[OF False offsets_single[OF assms]] by simp
qed


section \<open>Properties of the file tools\<close>

text \<open>
  \<open>file_read\<close> returns only the content of a file under the workspace root, and
  \<open>file_write\<close> changes only nodes under the root, apart from creating ancestor
  directories of the root that were missing.
\<close>

lemma resolve_acc_snoc:
  "resolve_acc acc (ps @ [n]) =
     (if n = ''..'' then butlast (resolve_acc acc ps) else resolve_acc acc ps @ [n])"
proof (induction ps arbitrary: acc)
  case Nil
  show ?case by (cases acc) simp_all
next
  case (Cons p ps)
  show ?case using Cons.IH[of "tl acc"] Cons.IH[of "p # acc"] by auto
qed

text \<open>
  Where the walk of the operating system arrives, \<open>resolve()\<close> arrives too: without
  symbolic links the place of a path that can be walked is its resolved path.
\<close>

lemma walk_dirs_resolve:
  "walk_dirs f cur cs = Inr d \<Longrightarrow> d = resolve_acc (rev cur) cs"
proof (induction cs arbitrary: cur)
  case Nil
  then show ?case by simp
next
  case (Cons c cs)
  show ?case
  proof (cases "c = ''..''")
    case True
    then have "walk_dirs f (butlast cur) cs = Inr d" using Cons.prems by simp
    from Cons.IH[OF this] have "d = resolve_acc (rev (butlast cur)) cs" .
    moreover have "rev (butlast cur) = tl (rev cur)" by (cases cur rule: rev_cases) simp_all
    ultimately show ?thesis using True by simp
  next
    case False
    then have "walk_dirs f (cur @ [c]) cs = Inr d" using Cons.prems
      by (simp split: option.splits node.splits)
    from Cons.IH[OF this] show ?thesis using False by simp
  qed
qed

lemma locate_resolve:
  assumes "locate f p = Inr q"
  shows "q = resolve p"
proof (cases p rule: rev_cases)
  case Nil
  then show ?thesis using assms by (simp add: locate_def resolve_def)
next
  case (snoc ps n)
  then obtain d where w: "walk_dirs f [] ps = Inr d"
    and q: "q = (if n = ''..'' then butlast d else d @ [n])"
    using assms by (auto simp: locate_def split: sum.splits)
  from walk_dirs_resolve[OF w] have "d = resolve_acc [] ps" by simp
  then show ?thesis using q snoc by (simp add: resolve_def resolve_acc_snoc)
qed

lemma read_text_node:
  assumes "read_text f p = Inr c"
  shows "locate f p = Inr (resolve p)" and "f (resolve p) = Some (File c)" and "resolve p \<noteq> []"
proof -
  from assms obtain q where l: "locate f p = Inr q" and n: "lookup f q = Some (File c)"
    by (auto simp: read_text_def split: sum.splits option.splits node.splits)
  have q: "q = resolve p" by (rule locate_resolve[OF l])
  show "locate f p = Inr (resolve p)" using l q by simp
  show "resolve p \<noteq> []" using n q by (auto simp: lookup_def)
  then show "f (resolve p) = Some (File c)" using n q by (simp add: lookup_def)
qed

lemma read_text_exists: "read_text f p = Inr c \<Longrightarrow> fs_exists f p"
  by (auto simp: read_text_def fs_exists_def split: sum.splits option.splits)

lemma write_text_over_file:
  assumes "read_text f p = Inr s"
  shows "write_text f p c = Inr (f(resolve p \<mapsto> File c))"
  using read_text_node[OF assms]
  by (simp add: write_text_def lookup_def)

text \<open>
  \<open>file_read\<close> gives only the content of a file inside the workspace.
\<close>

lemma file_read_inside:
  assumes "file_read ws f filename = Inr c"
  shows "\<exists>q. prefix (resolve ws) q \<and> f q = Some (File c)"
proof -
  let ?p = "joinpath ws filename"
  from assms have ok: "relative_to_ok ?p ws" and rd: "read_text f ?p = Inr c"
    by (auto simp: file_read_def read_get_file_path_def Let_def split: if_splits sum.splits)
  from read_text_node(2)[OF rd] ok show ?thesis unfolding relative_to_ok_def by blast
qed

text \<open>
  What the steps of \<open>file_write\<close> change. \<open>mkdir\<close> only makes directories where
  nothing was; \<open>write_text\<close> changes only the node at the resolved path.
\<close>

lemma os_mkdir_changes:
  assumes "os_mkdir f p = Inr f'"
  shows "f' q = f q \<or> (f q = None \<and> f' q = Some Dir)"
  using assms
  by (auto simp: os_mkdir_def split: if_splits sum.splits option.splits)

lemma mkdir_parents_changes:
  "mkdir_parents f p = (r, f') \<Longrightarrow> f' q = f q \<or> (f q = None \<and> f' q = Some Dir)"
proof (induction f p arbitrary: r f' rule: mkdir_parents.induct)
  case (1 f p)
  show ?case
  proof (cases "os_mkdir f p")
    case (Inr g)
    then have "f' = g" using "1.prems" by (subst (asm) mkdir_parents.simps) simp
    then show ?thesis using os_mkdir_changes[OF Inr, of q] by simp
  next
    case (Inl e)
    show ?thesis
    proof (cases "e = FileNotFoundError \<and> p \<noteq> []")
      case False
      then have "f' = f" using "1.prems" Inl
        by (subst (asm) mkdir_parents.simps) (auto split: if_splits)
      then show ?thesis by simp
    next
      case True
      obtain r1 f1 where m: "mkdir_parents f (parent p) = (r1, f1)"
        by (cases "mkdir_parents f (parent p)")
      have s1: "f1 q = f q \<or> (f q = None \<and> f1 q = Some Dir)"
        using "1.IH"[OF Inl _ _ m] True by simp
      show ?thesis
      proof (cases r1)
        case (Some e')
        then have "f' = f1" using "1.prems" Inl True m
          by (subst (asm) mkdir_parents.simps) simp
        then show ?thesis using s1 by simp
      next
        case None
        show ?thesis
        proof (cases "os_mkdir f1 p")
          case (Inr f2)
          then have "f' = f2" using "1.prems" Inl True m None
            by (subst (asm) mkdir_parents.simps) simp
          then show ?thesis using s1 os_mkdir_changes[OF Inr, of q] by auto
        next
          case e2: (Inl e2)
          then have "f' = f1" using "1.prems" Inl True m None
            by (subst (asm) mkdir_parents.simps) (auto split: if_splits)
          then show ?thesis using s1 by simp
        qed
      qed
    qed
  qed
qed

lemma write_text_changes:
  assumes "write_text f p c = Inr f'"
  shows "f' q = f q \<or> q = resolve p"
proof -
  from assms obtain q' where l: "locate f p = Inr q'" and f': "f' = f(q' \<mapsto> File c)"
    by (auto simp: write_text_def split: sum.splits option.splits node.splits)
  from locate_resolve[OF l] f' show ?thesis by auto
qed

text \<open>
  \<open>file_write\<close> writes no file outside the workspace and changes none there. It
  can make directories outside: the parent of the unresolved path is made before
  anything is written, and \<open>mkdir\<close> walks the parts of that path as they are.
\<close>

lemma file_write_inside:
  assumes "file_write ws f filename text app = (r, f')"
  shows "f' q = f q \<or> prefix (resolve ws) q \<or> (f q = None \<and> f' q = Some Dir)"
proof -
  let ?p = "joinpath ws filename"
  show ?thesis
  proof (cases "relative_to_ok ?p ws")
    case False
    then have "f' = f" using assms
      by (simp add: file_write_def write_get_file_path_def Let_def)
    then show ?thesis by simp
  next
    case ok: True
    obtain r1 f1 where m: "mkdir_parents f (parent ?p) = (r1, f1)"
      by (cases "mkdir_parents f (parent ?p)")
    have step1: "f1 q = f q \<or> (f q = None \<and> f1 q = Some Dir)"
      by (rule mkdir_parents_changes[OF m])
    show ?thesis
    proof (cases r1)
      case (Some e)
      then have "f' = f1" using assms ok m
        by (simp add: file_write_def write_get_file_path_def Let_def)
      then show ?thesis using step1 by auto
    next
      case None
      have step2: "f' q = f1 q \<or> q = resolve ?p"
        using assms ok m None write_text_changes[of f1 ?p _ f' q]
        by (auto simp: file_write_def write_get_file_path_def Let_def
                 split: if_splits sum.splits)
      have "prefix (resolve ws) (resolve ?p)" using ok by (simp add: relative_to_ok_def)
      with step1 step2 show ?thesis by auto
    qed
  qed
qed

lemma file_write_makes_directory_outside:
  "fst (file_write example_ws example_fs ''../newsibling/../workspace_agent/x.txt'' ''x'' False)
     = Inr ''x''
   \<and> example_fs [''data'', ''newsibling''] = None
   \<and> snd (file_write example_ws example_fs ''../newsibling/../workspace_agent/x.txt'' ''x'' False)
        [''data'', ''newsibling''] = Some Dir
   \<and> snd (file_write example_ws example_fs ''../newsibling/../workspace_agent/x.txt'' ''x'' False)
        [''data'', ''workspace_agent'', ''x.txt''] = Some (File ''x'')"
  by code_simp

text \<open>
  The operating system does not find a path that goes through a directory that does
  not exist, although the path resolves to a file that does.
\<close>

lemma file_read_through_missing_directory:
  "file_read example_ws example_fs ''nodir/../draft.md'' = Inl File_not_found
   \<and> file_read example_ws example_fs ''draft.md/../draft.md'' = Inl File_not_found
   \<and> file_read example_ws example_fs ''draft.md'' = Inr ''aaa''"
  by code_simp

text \<open>The three outcomes of \<open>file_edit\<close> on a file that can be read.\<close>

lemma file_edit_absent:
  assumes "security_check (edit_full_path ws file_path) ws"
    and "read_text f (edit_full_path ws file_path) = Inr s"
    and "offsets old_text s = []"
  shows "file_edit (Some ws) f file_path old_text new_text = (Inl Text_not_found, f)"
  using assms py_in_offsets[of old_text s] read_text_exists[OF assms(2)]
  by (simp add: file_edit_def Let_def)

lemma file_edit_single:
  assumes "security_check (edit_full_path ws file_path) ws"
    and "read_text f (edit_full_path ws file_path) = Inr s"
    and "offsets old_text s = [i]"
  shows "file_edit (Some ws) f file_path old_text new_text =
           (Inr (take i s @ new_text @ drop (i + length old_text) s),
            f(resolve (edit_full_path ws file_path) \<mapsto>
                File (take i s @ new_text @ drop (i + length old_text) s)))"
proof -
  have "py_in old_text s" using assms(3) by (simp add: py_in_offsets)
  then show ?thesis
    using assms(1,2) single_offset_replace[OF assms(3), of new_text]
      read_text_exists[OF assms(2)] write_text_over_file[OF assms(2)]
    by (simp add: file_edit_def Let_def)
qed

lemma file_edit_counted_twice:
  assumes "security_check (edit_full_path ws file_path) ws"
    and "read_text f (edit_full_path ws file_path) = Inr s"
    and "str_count s old_text > 1"
  shows "file_edit (Some ws) f file_path old_text new_text = (Inl (Ambiguous (str_count s old_text)), f)
       \<or> file_edit (Some ws) f file_path old_text new_text = (Inl Text_not_found, f)"
  using assms read_text_exists[OF assms(2)]
  by (simp add: file_edit_def Let_def)

text \<open>
  Claim C7. An edit whose \<open>old_text\<close> is found nowhere fails and leaves the file as
  it was (\<open>file_edit_absent\<close>); one whose \<open>old_text\<close> is found at exactly one
  offset succeeds and replaces that occurrence (\<open>file_edit_single\<close>). An
  \<open>old_text\<close> found at two offsets is not always refused: \<open>count\<close> skips
  occurrences that overlap an earlier one. In the file \<open>aaa\<close> the text \<open>aa\<close> starts at
  offsets 0 and 1, \<open>count\<close> is 1, and the edit succeeds and writes \<open>ba\<close>.
\<close>

theorem file_edit_overlapping_accepted:
  "offsets ''aa'' ''aaa'' = [0, 1]
   \<and> str_count ''aaa'' ''aa'' = 1
   \<and> fst (file_edit (Some example_ws) example_fs ''draft.md'' ''aa'' ''b'') = Inr ''ba''
   \<and> snd (file_edit (Some example_ws) example_fs ''draft.md'' ''aa'' ''b'')
         [''data'', ''workspace_agent'', ''draft.md''] = Some (File ''ba'')"
  by code_simp

text \<open>
  Claim C2. \<open>file_read\<close> and \<open>file_write\<close> compare the resolved path with the
  workspace root part by part and stay inside it (\<open>file_read_inside\<close>,
  \<open>file_write_inside\<close>). \<open>file_edit\<close> compares the two paths as texts: a sibling
  directory whose name starts with the name of the workspace passes the check. With
  the workspace \<open>/data/workspace_agent\<close>, the relative path
  \<open>../workspace_agent_old/notes.md\<close> and the absolute path
  \<open>/data/workspace_agent_old/notes.md\<close> are both accepted, and the file outside the
  workspace is read and rewritten; the other two tools refuse the same path.
\<close>

theorem file_edit_leaves_workspace:
  "\<not> prefix example_ws [''data'', ''workspace_agent_old'', ''notes.md'']
   \<and> fst (file_edit (Some example_ws) example_fs ''../workspace_agent_old/notes.md''
            ''secret'' ''x'') = Inr ''x''
   \<and> snd (file_edit (Some example_ws) example_fs ''../workspace_agent_old/notes.md''
            ''secret'' ''x'') [''data'', ''workspace_agent_old'', ''notes.md''] = Some (File ''x'')
   \<and> fst (file_edit (Some example_ws) example_fs ''/data/workspace_agent_old/notes.md''
            ''secret'' ''x'') = Inr ''x''
   \<and> file_read example_ws example_fs ''../workspace_agent_old/notes.md'' = Inl Path_traversal
   \<and> fst (file_write example_ws example_fs ''../workspace_agent_old/notes.md'' ''x'' False)
         = Inl Path_traversal"
  by code_simp

section \<open>Properties of the message log\<close>

lemma save_flushes:
  assumes "persist_dir m = Some dir"
  shows "save True m d (dir @ [''messages.json'']) = Some (messages m)"
  using assms by (simp add: save_def messages_file_def)

lemma add_system_message_flushes:
  assumes "persist_dir m = Some dir" and "add_system_message True c m d = (m', d')"
  shows "d' (dir @ [''messages.json'']) = Some (messages m')"
  using assms by (auto simp: add_system_message_def Let_def save_def messages_file_def)

lemma add_user_message_flushes:
  assumes "persist_dir m = Some dir" and "add_user_message True c m d = (m', d')"
  shows "d' (dir @ [''messages.json'']) = Some (messages m')"
  using assms by (auto simp: add_user_message_def Let_def save_def messages_file_def)

lemma add_assistant_message_flushes:
  assumes "persist_dir m = Some dir" and "add_assistant_message True c tcs m d = Inr (m', d')"
  shows "d' (dir @ [''messages.json'']) = Some (messages m')"
  using assms
  by (auto simp: add_assistant_message_def Let_def save_def messages_file_def split: if_splits)

lemma add_tool_result_flushes:
  assumes "persist_dir m = Some dir" and "add_tool_result True i c m d = (m', d')"
  shows "d' (dir @ [''messages.json'']) = Some (messages m')"
  using assms by (auto simp: add_tool_result_def Let_def save_def messages_file_def)

text \<open>
  Claim C6. The four appending operations write the file before they return
  (the lemmas above, for a manager with a directory and a write that succeeds).
  \<open>clear\<close> does not call \<open>_save\<close>: after a system and a user message were
  appended and saved, \<open>clear(keep_system=True)\<close> leaves one message in memory and
  both in the file.
\<close>

theorem clear_leaves_file_stale:
  "(case example_log_state of (m, d) \<Rightarrow>
      d [''data'', ''chats'', ''s1'', ''messages.json''] = Some (messages m)
      \<and> length (messages m) = 2
      \<and> (case clear True m d of (m', d') \<Rightarrow>
            length (messages m') = 1
            \<and> d' [''data'', ''chats'', ''s1'', ''messages.json''] = Some (messages m)
            \<and> d' [''data'', ''chats'', ''s1'', ''messages.json''] \<noteq> Some (messages m')))"
  by (simp add: example_log_state_def example_manager_def add_system_message_def
      add_user_message_def clear_def save_def messages_file_def mk_message_def Let_def)

section \<open>Properties of the compaction\<close>

lemma find_split_past:
  "k \<le> c \<Longrightarrow> n \<le> length all \<Longrightarrow>
   find_split all k n c = (length all, c + int (length (filter (\<lambda>m. role m = User) (take n all))))"
proof (induction n arbitrary: c)
  case 0
  then show ?case by simp
next
  case (Suc n)
  then have t: "take (Suc n) all = take n all @ [all ! n]"
    by (simp add: take_Suc_conv_app_nth)
  show ?case using Suc.IH[of "c + 1"] Suc.IH[of c] Suc.prems by (simp add: t)
qed

lemma find_split_few:
  "c + int (length (filter (\<lambda>m. role m = User) (take n all))) < k \<Longrightarrow> n \<le> length all \<Longrightarrow>
   find_split all k n c = (length all, c + int (length (filter (\<lambda>m. role m = User) (take n all))))"
proof (induction n arbitrary: c)
  case 0
  then show ?case by simp
next
  case (Suc n)
  then have t: "take (Suc n) all = take n all @ [all ! n]"
    by (simp add: take_Suc_conv_app_nth)
  have n: "n \<le> length all" using Suc.prems by simp
  show ?case
  proof (cases "role (all ! n) = User")
    case True
    then have lt: "(c + 1) + int (length (filter (\<lambda>m. role m = User) (take n all))) < k"
      using Suc.prems(1) by (simp add: t)
    then have "c + 1 \<noteq> k" by simp
    then show ?thesis using Suc.IH[OF lt n] True by (simp add: t)
  next
    case False
    then have lt: "c + int (length (filter (\<lambda>m. role m = User) (take n all))) < k"
      using Suc.prems(1) by (simp add: t)
    show ?thesis using Suc.IH[OF lt n] False by (simp add: t)
  qed
qed

lemma find_split_found:
  "c < k \<Longrightarrow> n \<le> length all \<Longrightarrow>
   k \<le> c + int (length (filter (\<lambda>m. role m = User) (take n all))) \<Longrightarrow>
   \<exists>i. find_split all k n c = (i, k) \<and> i < n \<and> role (all ! i) = User
       \<and> c + int (length (filter (\<lambda>m. role m = User) (drop i (take n all)))) = k"
proof (induction n arbitrary: c)
  case 0
  then show ?case by simp
next
  case (Suc n)
  then have t: "take (Suc n) all = take n all @ [all ! n]"
    by (simp add: take_Suc_conv_app_nth)
  have n: "n \<le> length all" using Suc.prems by simp
  show ?case
  proof (cases "role (all ! n) = User")
    case u: True
    show ?thesis
    proof (cases "c + 1 = k")
      case True
      then show ?thesis using u n by (simp add: t)
    next
      case False
      then have c1: "c + 1 < k" using Suc.prems by simp
      have "k \<le> (c + 1) + int (length (filter (\<lambda>m. role m = User) (take n all)))"
        using Suc.prems(3) u by (simp add: t)
      from Suc.IH[OF c1 n this] obtain i where
        i: "find_split all k n (c + 1) = (i, k)" "i < n" "role (all ! i) = User"
           "(c + 1) + int (length (filter (\<lambda>m. role m = User) (drop i (take n all)))) = k"
        by blast
      have "drop i (take (Suc n) all) = drop i (take n all) @ [all ! n]"
        using i(2) n by (simp add: t)
      then show ?thesis using i u False by auto
    qed
  next
    case nu: False
    have "k \<le> c + int (length (filter (\<lambda>m. role m = User) (take n all)))"
      using Suc.prems(3) nu by (simp add: t)
    from Suc.IH[OF Suc.prems(1) n this] obtain i where
      i: "find_split all k n c = (i, k)" "i < n" "role (all ! i) = User"
         "c + int (length (filter (\<lambda>m. role m = User) (drop i (take n all)))) = k"
      by blast
    have "drop i (take (Suc n) all) = drop i (take n all) @ [all ! n]"
      using i(2) n by (simp add: t)
    then show ?thesis using i nu by auto
  qed
qed

lemma find_split_whole:
  assumes "find_split all k (length all) 0 = (split_index, user_count)"
  shows "(users all < k \<longrightarrow> user_count < k)
       \<and> (1 \<le> k \<and> k \<le> user_count \<longrightarrow>
            split_index < length all \<and> role (all ! split_index) = User
            \<and> users (drop split_index all) = k)"
proof (cases "users all < k")
  case True
  then show ?thesis using find_split_few[of 0 "length all" all k] assms by simp
next
  case False
  show ?thesis
  proof (cases "1 \<le> k")
    case True
    have "\<exists>i. find_split all k (length all) 0 = (i, k) \<and> i < length all \<and> role (all ! i) = User
       \<and> 0 + users (drop i (take (length all) all)) = k"
      using False True by (intro find_split_found) simp_all
    then show ?thesis using assms False by auto
  next
    case False
    then show ?thesis using \<open>\<not> users all < k\<close> by simp
  qed
qed


lemma compact_few_users:
  assumes "users (messages mm) < k"
    and "compact_execute env k (Some mm) d = (r, m', d')"
  shows "m' = Some mm \<and> d' = d \<and> (ce_has_provider env \<longrightarrow> (\<exists>why. r = Compact_kept why))"
proof -
  obtain si uc where fs: "find_split (messages mm) k (length (messages mm)) 0 = (si, uc)"
    by (cases "find_split (messages mm) k (length (messages mm)) 0")
  have "uc < k" using find_split_whole[OF fs] assms(1) by simp
  then show ?thesis using assms(2) fs
    by (auto simp: compact_execute_def Let_def split: if_splits)
qed


lemma compact_rewrite_done:
  assumes "compact_rewrite env mm d sys old recent = (Compact_done before after n_old n_recent, m', d')"
  shows "\<exists>digest conf. digest \<noteq> [] \<and> conf \<noteq> []
          \<and> m' = Some (mm\<lparr>messages := sys
                @ [mk_message User (Some (summary_content digest)), mk_message Assistant (Some conf)]
                @ recent @ [mk_message User (Some ''Good. Please continue your work.'')]\<rparr>)
          \<and> d' = save (ce_writable env) (mm\<lparr>messages := sys
                @ [mk_message User (Some (summary_content digest)), mk_message Assistant (Some conf)]
                @ recent @ [mk_message User (Some ''Good. Please continue your work.'')]\<rparr>) d
          \<and> before = length (messages mm) \<and> after = length sys + length recent + 3"
proof -
  define input where "input = [mk_message System (Some (ce_system_prompt env))] @ old
     @ [mk_message User (Some
          ''Summarize the above conversation using the 5-section XML format. Use file_read if needed.'')]"
  define fin where "fin = mk_message User (Some ''Good. Please continue your work.'')"
  have unf: "compact_rewrite env mm d sys old recent =
     (case compaction_agent env 10 0 input of
        Inl e \<Rightarrow> (Compact_error (str_exn e), Some mm, d)
      | Inr None \<Rightarrow> (Compact_error ''Compaction agent timeout'', Some mm, d)
      | Inr (Some summary_text) \<Rightarrow>
          (if summary_text = [] then (Compact_error ''Compaction agent timeout'', Some mm, d)
           else
              (case ce_confirm env (sys @ [mk_message User (Some (summary_content summary_text))]) of
                 Inl e \<Rightarrow> (Compact_error (str_exn e), Some mm, d)
               | Inr confirmation_response \<Rightarrow>
                   (Compact_done (length (messages mm))
                      (length (sys @ [mk_message User (Some (summary_content summary_text)),
                          mk_message Assistant (Some (case r_content confirmation_response of
                             None \<Rightarrow> FALLBACK_CONFIRMATION
                           | Some t \<Rightarrow> if t = [] then FALLBACK_CONFIRMATION else t))]
                          @ recent @ [fin]))
                      (length old) (length recent),
                    Some (mm\<lparr>messages := sys @ [mk_message User (Some (summary_content summary_text)),
                          mk_message Assistant (Some (case r_content confirmation_response of
                             None \<Rightarrow> FALLBACK_CONFIRMATION
                           | Some t \<Rightarrow> if t = [] then FALLBACK_CONFIRMATION else t))]
                          @ recent @ [fin]\<rparr>),
                    save (ce_writable env) (mm\<lparr>messages := sys @ [mk_message User (Some (summary_content summary_text)),
                          mk_message Assistant (Some (case r_content confirmation_response of
                             None \<Rightarrow> FALLBACK_CONFIRMATION
                           | Some t \<Rightarrow> if t = [] then FALLBACK_CONFIRMATION else t))]
                          @ recent @ [fin]\<rparr>) d))))"
    unfolding compact_rewrite_def input_def fin_def continue_message_def Let_def ..
  show ?thesis
  proof (cases "compaction_agent env 10 0 input")
    case (Inl e)
    then show ?thesis using assms unfolding unf by simp
  next
    case (Inr summary)
    show ?thesis
    proof (cases summary)
      case None
      then show ?thesis using assms Inr unfolding unf by simp
    next
      case (Some digest)
      show ?thesis
      proof (cases "digest = []")
        case True
        then show ?thesis using assms Inr Some unfolding unf by simp
      next
        case ne: False
        show ?thesis
        proof (cases "ce_confirm env (sys @ [mk_message User (Some (summary_content digest))])")
          case (Inl e)
          then show ?thesis using assms Inr Some ne unfolding unf by simp
        next
          case (Inr resp)
          define conf where "conf = (case r_content resp of
                             None \<Rightarrow> FALLBACK_CONFIRMATION
                           | Some t \<Rightarrow> if t = [] then FALLBACK_CONFIRMATION else t)"
          have c: "conf \<noteq> []"
            by (auto simp: conf_def FALLBACK_CONFIRMATION_def split: option.splits)
          have eq: "compact_rewrite env mm d sys old recent =
              (Compact_done (length (messages mm))
                      (length (sys @ [mk_message User (Some (summary_content digest)),
                          mk_message Assistant (Some conf)] @ recent @ [fin]))
                      (length old) (length recent),
               Some (mm\<lparr>messages := sys @ [mk_message User (Some (summary_content digest)),
                          mk_message Assistant (Some conf)] @ recent @ [fin]\<rparr>),
               save (ce_writable env) (mm\<lparr>messages := sys @ [mk_message User (Some (summary_content digest)),
                          mk_message Assistant (Some conf)] @ recent @ [fin]\<rparr>) d)"
            unfolding unf conf_def using \<open>compaction_agent env 10 0 input = Inr summary\<close> Some ne Inr
            by simp
          have m: "m' = Some (mm\<lparr>messages := sys @ [mk_message User (Some (summary_content digest)),
                          mk_message Assistant (Some conf)] @ recent @ [fin]\<rparr>)"
            and dd: "d' = save (ce_writable env) (mm\<lparr>messages := sys @ [mk_message User (Some (summary_content digest)),
                          mk_message Assistant (Some conf)] @ recent @ [fin]\<rparr>) d"
            and b: "before = length (messages mm)"
            and a: "after = length (sys @ [mk_message User (Some (summary_content digest)),
                          mk_message Assistant (Some conf)] @ recent @ [fin])"
            using assms unfolding eq by simp_all
          have a': "after = length sys + length recent + 3" using a by simp
          show ?thesis
            using ne c m dd b a' unfolding fin_def by blast
        qed
      qed
    qed
  qed
qed

lemma compact_done:
  assumes "1 \<le> k"
    and "compact_execute env k (Some mm) d = (Compact_done before after n_old n_recent, m', d')"
  shows "\<exists>mm' i digest confirmation.
           m' = Some mm' \<and> persist_dir mm' = persist_dir mm
         \<and> d' = save (ce_writable env) mm' d
         \<and> i < length (messages mm) \<and> role (messages mm ! i) = User
         \<and> users (drop i (messages mm)) = k
         \<and> digest \<noteq> [] \<and> confirmation \<noteq> []
         \<and> messages mm' =
              filter (\<lambda>m. role m = System) (messages mm)
              @ [mk_message User (Some (summary_content digest)),
                 mk_message Assistant (Some confirmation)]
              @ drop i (messages mm)
              @ [mk_message User (Some ''Good. Please continue your work.'')]
         \<and> before = length (messages mm) \<and> after = length (messages mm')
         \<and> (after < before \<longleftrightarrow> length (filter (\<lambda>m. role m = System) (messages mm)) + 3 < i)"
proof -
  let ?all = "messages mm"
  let ?sys = "filter (\<lambda>m. role m = System) ?all"
  obtain si uc where fs: "find_split ?all k (length ?all) 0 = (si, uc)"
    by (cases "find_split ?all k (length ?all) 0")
  have uc: "k \<le> uc"
    using assms(2) fs by (auto simp: compact_execute_def Let_def split: if_splits)
  have si: "si < length ?all" "role (?all ! si) = User" "users (drop si ?all) = k"
    using find_split_whole[OF fs] assms(1) uc by simp_all
  have "\<exists>old. compact_rewrite env mm d ?sys old (drop si ?all)
          = (Compact_done before after n_old n_recent, m', d')"
    using assms(2) fs uc by (auto simp: compact_execute_def Let_def split: if_splits)
  then obtain old where rw: "compact_rewrite env mm d ?sys old (drop si ?all)
          = (Compact_done before after n_old n_recent, m', d')" ..
  from compact_rewrite_done[OF rw] obtain digest conf where
    dc: "digest \<noteq> []" "conf \<noteq> []"
    and res: "m' = Some (mm\<lparr>messages := ?sys
                @ [mk_message User (Some (summary_content digest)), mk_message Assistant (Some conf)]
                @ drop si ?all @ [mk_message User (Some ''Good. Please continue your work.'')]\<rparr>)"
    and dd: "d' = save (ce_writable env) (mm\<lparr>messages := ?sys
                @ [mk_message User (Some (summary_content digest)), mk_message Assistant (Some conf)]
                @ drop si ?all @ [mk_message User (Some ''Good. Please continue your work.'')]\<rparr>) d"
    and b: "before = length ?all" and a: "after = length ?sys + length (drop si ?all) + 3"
    by blast
  have len: "after < before \<longleftrightarrow> length ?sys + 3 < si"
    using a b si(1) by auto
  show ?thesis
    apply (rule exI[of _ "mm\<lparr>messages := ?sys
                @ [mk_message User (Some (summary_content digest)), mk_message Assistant (Some conf)]
                @ drop si ?all @ [mk_message User (Some ''Good. Please continue your work.'')]\<rparr>"])
    apply (rule exI[of _ si], rule exI[of _ digest], rule exI[of _ conf])
    apply (intro conjI)
    subgoal by (rule res)
    subgoal by simp
    subgoal by (rule dd)
    subgoal by (rule si)
    subgoal by (rule si)
    subgoal by (rule si)
    subgoal by (rule dc)
    subgoal by (rule dc)
    subgoal by simp
    subgoal by (rule b)
    subgoal using a by simp
    subgoal by (rule len)
    done
qed


text \<open>
  Claim C3, as the code has it. With a positive \<open>keep_recent_user_messages\<close>, a
  compaction that replaces the log leaves exactly: the system messages, one user
  message holding the digest, one assistant message holding the confirmation, the
  unchanged suffix of the old log that starts at its \<open>k\<close>-th user message from the
  end, and one user message \<open>Good. Please continue your work.\<close>. The new log has the
  system messages, the suffix and three messages more, so it is shorter than the old
  one exactly when more than three messages lie between the system messages and the
  suffix. On a log with fewer than \<open>k\<close> user messages nothing changes, in memory and
  on disk.
\<close>

theorem compact_execute_rewrites_log:
  "(1 \<le> k \<and> compact_execute env k (Some mm) d = (Compact_done before after n_old n_recent, m', d')
      \<longrightarrow> (\<exists>mm' i digest confirmation.
             m' = Some mm' \<and> persist_dir mm' = persist_dir mm
           \<and> d' = save (ce_writable env) mm' d
           \<and> i < length (messages mm) \<and> role (messages mm ! i) = User
           \<and> users (drop i (messages mm)) = k
           \<and> digest \<noteq> [] \<and> confirmation \<noteq> []
           \<and> messages mm' =
                filter (\<lambda>m. role m = System) (messages mm)
                @ [mk_message User (Some (summary_content digest)),
                   mk_message Assistant (Some confirmation)]
                @ drop i (messages mm)
                @ [mk_message User (Some ''Good. Please continue your work.'')]
           \<and> before = length (messages mm) \<and> after = length (messages mm')
           \<and> (after < before \<longleftrightarrow>
                 length (filter (\<lambda>m. role m = System) (messages mm)) + 3 < i)))
   \<and> (users (messages mm) < k \<and> compact_execute env k (Some mm) d = (r, m'', d'')
      \<longrightarrow> m'' = Some mm \<and> d'' = d)"
proof (intro conjI impI)
  assume "1 \<le> k \<and> compact_execute env k (Some mm) d
            = (Compact_done before after n_old n_recent, m', d')"
  then have k: "1 \<le> k"
    and ex: "compact_execute env k (Some mm) d = (Compact_done before after n_old n_recent, m', d')"
    by simp_all
  show "\<exists>mm' i digest confirmation.
             m' = Some mm' \<and> persist_dir mm' = persist_dir mm
           \<and> d' = save (ce_writable env) mm' d
           \<and> i < length (messages mm) \<and> role (messages mm ! i) = User
           \<and> users (drop i (messages mm)) = k
           \<and> digest \<noteq> [] \<and> confirmation \<noteq> []
           \<and> messages mm' =
                filter (\<lambda>m. role m = System) (messages mm)
                @ [mk_message User (Some (summary_content digest)),
                   mk_message Assistant (Some confirmation)]
                @ drop i (messages mm)
                @ [mk_message User (Some ''Good. Please continue your work.'')]
           \<and> before = length (messages mm) \<and> after = length (messages mm')
           \<and> (after < before \<longleftrightarrow>
                 length (filter (\<lambda>m. role m = System) (messages mm)) + 3 < i)"
    by (rule compact_done[OF k ex])
next
  assume a: "users (messages mm) < k \<and> compact_execute env k (Some mm) d = (r, m'', d'')"
  then have u: "users (messages mm) < k"
    and ex: "compact_execute env k (Some mm) d = (r, m'', d'')"
    by simp_all
  have "m'' = Some mm \<and> d'' = d
      \<and> (ce_has_provider env \<longrightarrow> (\<exists>why. r = Compact_kept why))"
    by (rule compact_few_users[OF u ex])
  then show "m'' = Some mm" and "d'' = d" by simp_all
qed

theorem compact_execute_rewrites_log_witness:
  "fst (compact_execute example_compact_env 10 (Some example_long_log) Map.empty)
     = Compact_done 13 14 2 10
   \<and> (\<exists>mm' digest confirmation.
         fst (snd (compact_execute example_compact_env 10 (Some example_long_log) Map.empty))
           = Some mm'
       \<and> messages mm' =
            filter (\<lambda>m. role m = System) (messages example_long_log)
            @ [mk_message User (Some (summary_content digest)),
               mk_message Assistant (Some confirmation)]
            @ drop 3 (messages example_long_log)
            @ [mk_message User (Some ''Good. Please continue your work.'')])
   \<and> users (messages example_short_log) < 10
   \<and> fst (snd (compact_execute example_compact_env 10 (Some example_short_log) Map.empty))
        = Some example_short_log"
proof -
  define R where "R = compact_execute example_compact_env 10 (Some example_long_log) Map.empty"
  define S where "S = compact_execute example_compact_env 10 (Some example_short_log) Map.empty"
  have f: "fst R = Compact_done 13 14 2 10" unfolding R_def by code_simp
  have R: "compact_execute example_compact_env 10 (Some example_long_log) Map.empty
             = (Compact_done 13 14 2 10, fst (snd R), snd (snd R))"
    using f unfolding R_def by (metis prod.collapse)
  have S: "compact_execute example_compact_env 10 (Some example_short_log) Map.empty
             = (fst S, fst (snd S), snd (snd S))"
    unfolding S_def by simp
  have u: "users (messages example_short_log) < 10"
    by (simp add: example_short_log_def mk_message_def)
  have k: "(1::int) \<le> 10" by simp
  note inst1 = compact_execute_rewrites_log[of 10 example_compact_env example_long_log Map.empty
      13 14 2 10 "fst (snd R)" "snd (snd R)"]
  from inst1 k R obtain mm' i digest confirmation where
    m: "fst (snd R) = Some mm'"
    and i: "i < length (messages example_long_log)" "role (messages example_long_log ! i) = User"
       "users (drop i (messages example_long_log)) = 10"
    and ms: "messages mm' =
            filter (\<lambda>m. role m = System) (messages example_long_log)
            @ [mk_message User (Some (summary_content digest)),
               mk_message Assistant (Some confirmation)]
            @ drop i (messages example_long_log)
            @ [mk_message User (Some ''Good. Please continue your work.'')]"
    and len: "14 = length (messages mm')"
    by blast
  have "length (messages example_long_log) = 13"
    by (simp add: example_long_log_def)
  moreover have "length (filter (\<lambda>m. role m = System) (messages example_long_log)) = 1"
    by (simp add: example_long_log_def mk_message_def)
  ultimately have "i = 3" using len i(1) unfolding ms by simp
  then have ms3: "messages mm' =
            filter (\<lambda>m. role m = System) (messages example_long_log)
            @ [mk_message User (Some (summary_content digest)),
               mk_message Assistant (Some confirmation)]
            @ drop 3 (messages example_long_log)
            @ [mk_message User (Some ''Good. Please continue your work.'')]"
    using ms by simp
  note inst2 = compact_execute_rewrites_log[of 10 example_compact_env example_short_log Map.empty
      0 0 0 0 None Map.empty "fst S" "fst (snd S)" "snd (snd S)"]
  have s: "fst (snd S) = Some example_short_log"
    using inst2 u S by blast
  show ?thesis
    using f m ms3 u s unfolding R_def S_def by blast
qed

text \<open>
  The claim as the specification words it fails on a log of thirteen messages, eleven
  of them from the user, of which two are summarized and ten kept: the compaction
  succeeds, the new log has fourteen messages, one more than before, and its last
  message is not \<open>Please continue your work.\<close> but
  \<open>Good. Please continue your work.\<close>
\<close>

theorem compact_not_shorter_counterexample:
  "length (messages example_long_log) = 13
   \<and> users (messages example_long_log) = 11
   \<and> (case compact_execute example_compact_env 10 (Some example_long_log) Map.empty of
         (r, m', d') \<Rightarrow>
           r = Compact_done 13 14 2 10
           \<and> (case m' of
                None \<Rightarrow> False
              | Some mm' \<Rightarrow>
                  \<not> length (messages mm') < length (messages example_long_log)
                  \<and> content (last (messages mm')) = Some ''Good. Please continue your work.''
                  \<and> content (last (messages mm')) \<noteq> Some ''Please continue your work.''))"
  by code_simp

section \<open>Properties of a turn\<close>

subsection \<open>What each step leaves unchanged\<close>

lemma call_tool_frame [simp]:
  "t_events (snd (call_tool env numbered n a st)) = t_events st"
  "t_thinking_steps (snd (call_tool env numbered n a st)) = t_thinking_steps st"
  "t_stage (snd (call_tool env numbered n a st)) = t_stage st"
  "t_tools (snd (call_tool env numbered n a st)) = t_tools st"
  "t_step_counter (snd (call_tool env numbered n a st)) = t_step_counter st"
  "t_last_prompt_tokens (snd (call_tool env numbered n a st)) = t_last_prompt_tokens st"
  "t_executed (snd (call_tool env numbered n a st)) = t_executed st"
  unfolding call_tool_def
  by (simp_all split: sum.split mcp_return.split add: split_beta)

lemma execute_tool_frame [simp]:
  "t_events (snd (execute_tool env numbered tc st)) = t_events st"
  "t_thinking_steps (snd (execute_tool env numbered tc st)) = t_thinking_steps st"
  "t_stage (snd (execute_tool env numbered tc st)) = t_stage st"
  "t_tools (snd (execute_tool env numbered tc st)) = t_tools st"
  "t_step_counter (snd (execute_tool env numbered tc st)) = t_step_counter st"
  "t_last_prompt_tokens (snd (execute_tool env numbered tc st)) = t_last_prompt_tokens st"
  unfolding execute_tool_def Let_def
  by (simp_all split: sum.split)

lemma log_user_frame [simp]:
  "t_events (log_user env c st) = t_events st"
  "t_thinking_steps (log_user env c st) = t_thinking_steps st"
  "t_stage (log_user env c st) = t_stage st"
  "t_tools (log_user env c st) = t_tools st"
  "t_step_counter (log_user env c st) = t_step_counter st"
  "t_last_prompt_tokens (log_user env c st) = t_last_prompt_tokens st"
  "t_current_sources (log_user env c st) = t_current_sources st"
  "t_executed (log_user env c st) = t_executed st"
  by (simp_all add: log_user_def add_user_message_def Let_def)

lemma log_tool_result_frame [simp]:
  "t_events (log_tool_result env i c st) = t_events st"
  "t_thinking_steps (log_tool_result env i c st) = t_thinking_steps st"
  "t_stage (log_tool_result env i c st) = t_stage st"
  "t_tools (log_tool_result env i c st) = t_tools st"
  "t_step_counter (log_tool_result env i c st) = t_step_counter st"
  "t_last_prompt_tokens (log_tool_result env i c st) = t_last_prompt_tokens st"
  "t_current_sources (log_tool_result env i c st) = t_current_sources st"
  "t_executed (log_tool_result env i c st) = t_executed st"
  by (simp_all add: log_tool_result_def add_tool_result_def Let_def)

lemma log_assistant_frame:
  assumes "log_assistant env c tcs st = Inr st'"
  shows "t_events st' = t_events st" "t_thinking_steps st' = t_thinking_steps st"
    "t_stage st' = t_stage st" "t_tools st' = t_tools st"
    "t_step_counter st' = t_step_counter st"
    "t_last_prompt_tokens st' = t_last_prompt_tokens st"
    "t_current_sources st' = t_current_sources st"
    "t_executed st' = t_executed st"
  using assms
  by (auto simp: log_assistant_def add_assistant_message_def Let_def split: if_splits sum.splits)

lemma yield_frame [simp]:
  "t_events (yield ev st) = t_events st @ [ev]"
  "t_thinking_steps (yield ev st) = t_thinking_steps st"
  "t_stage (yield ev st) = t_stage st"
  "t_tools (yield ev st) = t_tools st"
  "t_step_counter (yield ev st) = t_step_counter st"
  "t_last_prompt_tokens (yield ev st) = t_last_prompt_tokens st"
  "t_current_sources (yield ev st) = t_current_sources st"
  "t_executed (yield ev st) = t_executed st"
  "t_manager (yield ev st) = t_manager st"
  "t_disk (yield ev st) = t_disk st"
  by (simp_all add: yield_def)

lemma track_usage_frame [simp]:
  "t_events (track_usage r st) = t_events st"
  "t_thinking_steps (track_usage r st) = t_thinking_steps st"
  "t_stage (track_usage r st) = t_stage st"
  "t_tools (track_usage r st) = t_tools st"
  "t_step_counter (track_usage r st) = t_step_counter st"
  "t_current_sources (track_usage r st) = t_current_sources st"
  "t_executed (track_usage r st) = t_executed st"
  "t_manager (track_usage r st) = t_manager st"
  "t_disk (track_usage r st) = t_disk st"
  by (simp_all add: track_usage_def split: option.splits)

lemma forced_compaction_frame [simp]:
  "t_events (forced_compaction env st) = t_events st"
  "t_thinking_steps (forced_compaction env st) = t_thinking_steps st"
  "t_stage (forced_compaction env st) = t_stage st"
  "t_tools (forced_compaction env st) = t_tools st"
  "t_step_counter (forced_compaction env st) = t_step_counter st"
  "t_last_prompt_tokens (forced_compaction env st) = t_last_prompt_tokens st"
  "t_current_sources (forced_compaction env st) = t_current_sources st"
  "t_executed (forced_compaction env st) = t_executed st"
  by (simp_all add: forced_compaction_def split_beta)

lemma run_tool_call_frame [simp]:
  "filter is_terminal (t_events (snd (run_tool_call env numbered r tc st)))
     = filter is_terminal (t_events st)"
  "t_stage (snd (run_tool_call env numbered r tc st)) = t_stage st"
  "t_tools (snd (run_tool_call env numbered r tc st)) = t_tools st"
  "t_last_prompt_tokens (snd (run_tool_call env numbered r tc st)) = t_last_prompt_tokens st"
  unfolding run_tool_call_def Let_def
  by (simp_all split: sum.split prod.split add: split_beta)

lemma run_tool_calls_Cons:
  "run_tool_calls env numbered r (tc # tcs) st =
     (case fst (run_tool_call env numbered r tc st) of
        Some e \<Rightarrow> (Some e, snd (run_tool_call env numbered r tc st))
      | None \<Rightarrow> run_tool_calls env numbered r tcs (snd (run_tool_call env numbered r tc st)))"
  by (simp split: prod.split option.split)

lemma run_tool_calls_frame [simp]:
  "filter is_terminal (t_events (snd (run_tool_calls env numbered r tcs st)))
     = filter is_terminal (t_events st)"
  "t_stage (snd (run_tool_calls env numbered r tcs st)) = t_stage st"
  "t_tools (snd (run_tool_calls env numbered r tcs st)) = t_tools st"
  "t_last_prompt_tokens (snd (run_tool_calls env numbered r tcs st)) = t_last_prompt_tokens st"
proof (induction tcs arbitrary: st)
  case Nil
  {
    case 1 show ?case by simp
  next
    case 2 show ?case by simp
  next
    case 3 show ?case by simp
  next
    case 4 show ?case by simp
  }
next
  case (Cons tc tcs)
  {
    case 1 show ?case
      unfolding run_tool_calls_Cons by (simp add: Cons.IH split: option.split)
  next
    case 2 show ?case
      unfolding run_tool_calls_Cons by (simp add: Cons.IH split: option.split)
  next
    case 3 show ?case
      unfolding run_tool_calls_Cons by (simp add: Cons.IH split: option.split)
  next
    case 4 show ?case
      unfolding run_tool_calls_Cons by (simp add: Cons.IH split: option.split)
  }
qed


subsection \<open>Terminal events of Chat Mode\<close>

lemma terminals_append [simp]: "terminals (xs @ ys) = terminals xs @ terminals ys"
  by (simp add: terminals_def)

lemma terminals_same:
  "filter is_terminal xs = filter is_terminal ys \<Longrightarrow> terminals xs = terminals ys"
  by (simp add: terminals_def)

lemma run_tool_calls_terminals:
  assumes "run_tool_calls env numbered r tcs st = (x, st')"
  shows "terminals (t_events st') = terminals (t_events st)"
    and "t_stage st' = t_stage st" and "t_tools st' = t_tools st"
    and "t_last_prompt_tokens st' = t_last_prompt_tokens st"
proof -
  have s: "st' = snd (run_tool_calls env numbered r tcs st)" using assms by simp
  show "terminals (t_events st') = terminals (t_events st)"
    unfolding s by (rule terminals_same) simp
  show "t_stage st' = t_stage st" "t_tools st' = t_tools st"
    "t_last_prompt_tokens st' = t_last_prompt_tokens st"
    unfolding s by simp_all
qed

lemma chat_iteration_terminals:
  assumes "chat_iteration env iteration st = (x, st')"
  shows "terminals (t_events st') = terminals (t_events st)"
  using assms unfolding chat_iteration_def Let_def
  by (auto split: sum.splits prod.splits option.splits if_splits
      dest!: log_assistant_frame(1) run_tool_calls_terminals(1))

lemma chat_loop_terminals:
  "chat_loop env iteration st = (x, st') \<Longrightarrow>
   terminals (t_events st') =
     terminals (t_events st) @ (case x of Chat_cancelled \<Rightarrow> [K_cancelled] | _ \<Rightarrow> [])"
proof (induction env iteration st rule: chat_loop.induct)
  case (1 env iteration st)
  show ?case
  proof (cases "iteration < e_max_iterations env")
    case False
    then show ?thesis using "1.prems" by (subst (asm) chat_loop.simps) auto
  next
    case lt: True
    show ?thesis
    proof (cases "e_cancel_flag env (Suc iteration)")
      case True
      then show ?thesis using "1.prems" lt
        by (subst (asm) chat_loop.simps) (auto simp: terminals_def)
    next
      case nc: False
      obtain f st1 where it: "chat_iteration env (Suc iteration) st = (f, st1)"
        by (cases "chat_iteration env (Suc iteration) st")
      note t1 = chat_iteration_terminals[OF it]
      show ?thesis
      proof (cases f)
        case Continue
        then have "chat_loop env (Suc iteration) st1 = (x, st')"
          using "1.prems" lt nc it by (subst (asm) chat_loop.simps) simp
        from "1.IH"[OF lt nc it[symmetric] Continue this] t1 show ?thesis by simp
      next
        case (Break a)
        then show ?thesis using "1.prems" lt nc it t1
          by (subst (asm) chat_loop.simps) auto
      next
        case (Raise e)
        then show ?thesis using "1.prems" lt nc it t1
          by (subst (asm) chat_loop.simps) auto
      qed
    qed
  qed
qed

lemma chat_stream_terminals:
  "terminals (t_events (chat_stream env message' st0))
     \<in> {[K_error], [K_complete], [K_cancelled, K_complete]}"
proof -
  define st1 where "st1 = log_user env message'
                  (st0\<lparr>t_thinking_steps := [], t_step_counter := 0, t_last_prompt_tokens := 0,
                       t_current_sources := [], t_tools := chat_tools env,
                       t_events := [], t_executed := []\<rparr>)"
  have e1: "t_events st1 = []" by (simp add: st1_def)
  obtain x st where l: "chat_loop env 0 st1 = (x, st)" by (cases "chat_loop env 0 st1")
  have t: "terminals (t_events st) = (case x of Chat_cancelled \<Rightarrow> [K_cancelled] | _ \<Rightarrow> [])"
    using chat_loop_terminals[OF l] e1 by (simp add: terminals_def)
  have cs: "chat_stream env message' st0 =
      (case (x, st) of
           (Chat_raised e, st) \<Rightarrow>
             (case log_assistant env (Some (error_text e)) [] st of
                Inl _ \<Rightarrow> yield (Error (error_text e)) st
              | Inr st' \<Rightarrow> yield (Error (error_text e)) st')
         | (x, st) \<Rightarrow>
             yield (Complete (build_response ''chat'' message' (chat_final_response x)
                                (list_ex ts_has_code (t_thinking_steps st)) None st)) st)"
    unfolding chat_stream_def Let_def st1_def[symmetric] l ..
  show ?thesis
  proof (cases x)
    case Chat_cancelled
    then show ?thesis using t by (simp add: cs terminals_def)
  next
    case (Chat_answered a)
    then show ?thesis using t by (simp add: cs terminals_def)
  next
    case Chat_exhausted
    then show ?thesis using t by (simp add: cs terminals_def)
  next
    case (Chat_raised e)
    then show ?thesis using t
      by (auto simp: cs terminals_def split: sum.splits dest: log_assistant_frame(1))
  qed
qed


section \<open>Terminal events of an Agent Mode turn\<close>


lemma switch_frame [simp]:
  "t_events (switch_to_research_stage env st) = t_events st"
  "t_events (reset_to_hil st) = t_events st"
  "t_thinking_steps (reset_to_hil st) = t_thinking_steps st"
  "t_thinking_steps (switch_to_research_stage env st) = t_thinking_steps st"
  "t_current_sources (reset_to_hil st) = t_current_sources st"
  "t_current_sources (switch_to_research_stage env st) = t_current_sources st"
  by (simp_all add: switch_to_research_stage_def reset_to_hil_def)

lemma on_start_research_terminals:
  "terminals (t_events (snd (on_start_research env st))) = terminals (t_events st)"
  "fst (on_start_research env st) \<noteq> A_return"
  by (simp_all add: on_start_research_def terminals_def)

lemma on_stop_answer_terminals:
  "terminals (t_events (snd (on_stop_answer env st))) = terminals (t_events st)"
  "fst (on_stop_answer env st) \<noteq> A_return"
  by (simp_all add: on_stop_answer_def terminals_def)

lemma on_normal_tools_terminals:
  "terminals (t_events (snd (on_normal_tools env r tcs st))) = terminals (t_events st)"
  "fst (on_normal_tools env r tcs st) \<noteq> A_return"
proof -
  show "terminals (t_events (snd (on_normal_tools env r tcs st))) = terminals (t_events st)"
  proof (cases "log_assistant env r tcs st")
    case (Inl e)
    then show ?thesis by (simp add: on_normal_tools_def)
  next
    case (Inr st2)
    obtain x st3 where rt: "run_tool_calls env False r tcs st2 = (x, st3)"
      by (cases "run_tool_calls env False r tcs st2")
    have "terminals (t_events st3) = terminals (t_events st)"
      using run_tool_calls_terminals(1)[OF rt] log_assistant_frame(1)[OF Inr] by simp
    then show ?thesis using Inr rt
      by (cases x) (simp_all add: on_normal_tools_def)
  qed
  show "fst (on_normal_tools env r tcs st) \<noteq> A_return"
    by (simp add: on_normal_tools_def split_beta split: sum.split option.split)
qed

lemma on_no_tool_calls_terminals:
  "terminals (t_events (snd (on_no_tool_calls env m r c st))) =
     terminals (t_events st)
     @ (if fst (on_no_tool_calls env m r c st) = A_return then [K_complete] else [])"
  unfolding on_no_tool_calls_def Let_def
  by (auto simp: terminals_def split: sum.splits dest!: log_assistant_frame(1))

lemma agent_body_terminals:
  "terminals (t_events (snd (agent_body env iteration message' st))) =
     terminals (t_events st)
     @ (if fst (agent_body env iteration message' st) = A_return then [K_complete] else [])"
  unfolding agent_body_def Let_def
  by (simp add: on_start_research_terminals on_stop_answer_terminals on_normal_tools_terminals
      on_no_tool_calls_terminals split: sum.split)

lemma agent_iteration_terminals:
  "fst (agent_iteration env iteration message' st) \<in> {A_continue, A_break, A_return}"
  "terminals (t_events (snd (agent_iteration env iteration message' st))) =
     terminals (t_events st)
     @ (if fst (agent_iteration env iteration message' st) = A_return
        then (if fst (agent_body env iteration message' st) = A_return then [K_complete]
              else [K_error])
        else [])"
proof -
  obtain f st1 where b: "agent_body env iteration message' st = (f, st1)"
    by (cases "agent_body env iteration message' st")
  have t: "terminals (t_events st1) = terminals (t_events st)
     @ (if f = A_return then [K_complete] else [])"
    using agent_body_terminals[of env iteration message' st] b by simp
  show "fst (agent_iteration env iteration message' st) \<in> {A_continue, A_break, A_return}"
    using b by (cases f) (simp_all add: agent_iteration_def)
  show "terminals (t_events (snd (agent_iteration env iteration message' st))) =
     terminals (t_events st)
     @ (if fst (agent_iteration env iteration message' st) = A_return
        then (if fst (agent_body env iteration message' st) = A_return then [K_complete]
              else [K_error])
        else [])"
    using b t
    by (cases f) (auto simp: agent_iteration_def terminals_def split: sum.splits
        dest!: log_assistant_frame(1))
qed


lemma agent_loop_terminals:
  "agent_loop env iteration message' st = (x, st') \<Longrightarrow>
   terminals (t_events st') =
     terminals (t_events st) @
       (case x of Agent_cancelled \<Rightarrow> [K_cancelled] | Agent_returned \<Rightarrow> [K_complete] | _ \<Rightarrow> [])
   \<or> x = Agent_returned \<and> terminals (t_events st') = terminals (t_events st) @ [K_error]"
proof (induction env iteration message' st rule: agent_loop.induct)
  case (1 env iteration message' st)
  show ?case
  proof (cases "iteration < e_max_iterations env")
    case False
    then show ?thesis using "1.prems" by (subst (asm) agent_loop.simps) auto
  next
    case lt: True
    show ?thesis
    proof (cases "e_cancel_flag env (Suc iteration)")
      case True
      then show ?thesis using "1.prems" lt
        by (subst (asm) agent_loop.simps) (auto simp: terminals_def Let_def)
    next
      case nc: False
      obtain f st1 where it: "agent_iteration env (Suc iteration) message' st = (f, st1)"
        by (cases "agent_iteration env (Suc iteration) message' st")
      have t1: "terminals (t_events st1) = terminals (t_events st) @
           (if f = A_return then [K_complete] else [])
         \<or> f = A_return \<and> terminals (t_events st1) = terminals (t_events st) @ [K_error]"
        and f3: "f \<in> {A_continue, A_break, A_return}"
        using agent_iteration_terminals[of env "Suc iteration" message' st] it by simp_all
      show ?thesis
      proof (cases f)
        case A_continue
        then have "agent_loop env (Suc iteration) message' st1 = (x, st')"
          using "1.prems" lt nc it by (subst (asm) agent_loop.simps) simp
        from "1.IH"[OF lt nc it[symmetric] A_continue this] t1 A_continue show ?thesis by simp
      next
        case A_break
        then show ?thesis using "1.prems" lt nc it t1
          by (subst (asm) agent_loop.simps) auto
      next
        case A_return
        then show ?thesis using "1.prems" lt nc it t1
          by (subst (asm) agent_loop.simps) auto
      next
        case (A_raise e)
        then show ?thesis using f3 by simp
      qed
    qed
  qed
qed

lemma agent_finish_terminals:
  "agent_finish env message' ready final st = (Returned, st') \<Longrightarrow>
   terminals (t_events st') = terminals (t_events st) @ [K_complete]"
  by (auto simp: agent_finish_def terminals_def split: sum.splits prod.splits)

lemma agent_stream_terminals:
  assumes "agent_stream env message' st0 = (Returned, st')"
  shows "terminals (t_events st') \<in> {[K_error], [K_complete], [K_cancelled, K_complete]}"
proof -
  define st1 where "st1 = log_user env message'
                  (st0\<lparr>t_thinking_steps := [], t_step_counter := 0, t_last_prompt_tokens := 0,
                       t_current_sources := [], t_tools := stage_tools env (t_stage st0),
                       t_events := [], t_executed := []\<rparr>)"
  have e1: "t_events st1 = []" by (simp add: st1_def)
  obtain x st where l: "agent_loop env 0 message' st1 = (x, st)"
    by (cases "agent_loop env 0 message' st1")
  have t: "terminals (t_events st) =
       (case x of Agent_cancelled \<Rightarrow> [K_cancelled] | Agent_returned \<Rightarrow> [K_complete] | _ \<Rightarrow> [])
     \<or> x = Agent_returned \<and> terminals (t_events st) = [K_error]"
    using agent_loop_terminals[OF l] e1 by (simp add: terminals_def)
  have cs: "agent_stream env message' st0 =
      (case (x, st) of
           (Agent_returned, st) \<Rightarrow> (Returned, st)
         | (Agent_ready, st) \<Rightarrow>
             (case e_final_chat env (messages (t_manager st)) of
                Inl e \<Rightarrow> (Propagated e, st)
              | Inr response \<Rightarrow>
                  (let st2 = track_usage response st in
                   case log_assistant env (r_content response) [] st2 of
                     Inl e \<Rightarrow> (Propagated e, st2)
                   | Inr st3 \<Rightarrow>
                       agent_finish env message' True
                         (case r_content response of None \<Rightarrow> [] | Some t \<Rightarrow> t)
                         (if t_stage st3 = Research then reset_to_hil st3 else st3)))
         | (_, st) \<Rightarrow>
             (case log_assistant env (Some MAXED_OUT) [] st of
                Inl e \<Rightarrow> (Propagated e, st)
              | Inr st' \<Rightarrow> agent_finish env message' False MAXED_OUT st'))"
    unfolding agent_stream_def Let_def st1_def[symmetric] l ..
  show ?thesis
  proof (cases x)
    case Agent_cancelled
    then obtain st2 where la: "log_assistant env (Some MAXED_OUT) [] st = Inr st2"
      and fin: "agent_finish env message' False MAXED_OUT st2 = (Returned, st')"
      using assms by (auto simp: cs split: sum.splits)
    from agent_finish_terminals[OF fin] log_assistant_frame(1)[OF la] t Agent_cancelled
    show ?thesis by simp
  next
    case Agent_exhausted
    then obtain st2 where la: "log_assistant env (Some MAXED_OUT) [] st = Inr st2"
      and fin: "agent_finish env message' False MAXED_OUT st2 = (Returned, st')"
      using assms by (auto simp: cs split: sum.splits)
    from agent_finish_terminals[OF fin] log_assistant_frame(1)[OF la] t Agent_exhausted
    show ?thesis by simp
  next
    case Agent_returned
    then show ?thesis using assms t by (auto simp: cs)
  next
    case Agent_ready
    then obtain response st3 where
      la: "log_assistant env (r_content response) [] (track_usage response st) = Inr st3"
      and fin: "agent_finish env message' True
                         (case r_content response of None \<Rightarrow> [] | Some t \<Rightarrow> t)
                         (if t_stage st3 = Research then reset_to_hil st3 else st3) = (Returned, st')"
      using assms by (auto simp: cs Let_def split: sum.splits)
    from agent_finish_terminals[OF fin] log_assistant_frame(1)[OF la] t Agent_ready
    show ?thesis by (simp split: if_splits)
  qed
qed


section \<open>Claim C1: the terminal events of a turn\<close>

text \<open>
  Whenever a loop comes to the head of an iteration with the cancel flag set, it
  emits \<open>cancelled\<close> and is left by \<open>break\<close>; and it is left in this way only when
  the flag was set at the head of some iteration.
\<close>

lemma terminals_single:
  "terminals [ev] = (if is_terminal ev then [kind_of ev] else [])"
  by (simp add: terminals_def)

lemma chat_loop_cancel_now:
  assumes "iteration < e_max_iterations env" and "e_cancel_flag env (Suc iteration)"
  shows "chat_loop env iteration st =
           (Chat_cancelled, yield (Cancelled (length (t_thinking_steps st)) None) st)"
  using assms by (subst chat_loop.simps) simp

lemma agent_loop_cancel_now:
  assumes "iteration < e_max_iterations env" and "e_cancel_flag env (Suc iteration)"
  shows "fst (agent_loop env iteration message' st) = Agent_cancelled"
    and "t_events (snd (agent_loop env iteration message' st))
           = t_events st @ [Cancelled (length (t_thinking_steps st)) (Some Hil)]"
proof -
  have s: "t_stage (if t_stage st = Research then reset_to_hil st else st) = Hil"
    by (cases "t_stage st") (simp_all add: reset_to_hil_def)
  show "fst (agent_loop env iteration message' st) = Agent_cancelled"
    using assms by (subst agent_loop.simps) (simp add: Let_def)
  show "t_events (snd (agent_loop env iteration message' st))
           = t_events st @ [Cancelled (length (t_thinking_steps st)) (Some Hil)]"
    using assms s by (subst agent_loop.simps) (simp add: Let_def)
qed

lemma chat_loop_cancelled_flag:
  "chat_loop env iteration st = (Chat_cancelled, st') \<Longrightarrow>
   \<exists>k. iteration < k \<and> k \<le> e_max_iterations env \<and> e_cancel_flag env k"
proof (induction env iteration st rule: chat_loop.induct)
  case (1 env iteration st)
  show ?case
  proof (cases "iteration < e_max_iterations env")
    case False
    then show ?thesis using "1.prems" by (subst (asm) chat_loop.simps) auto
  next
    case lt: True
    show ?thesis
    proof (cases "e_cancel_flag env (Suc iteration)")
      case True
      then show ?thesis using lt by (intro exI[of _ "Suc iteration"]) simp
    next
      case nc: False
      obtain f st1 where it: "chat_iteration env (Suc iteration) st = (f, st1)"
        by (cases "chat_iteration env (Suc iteration) st")
      show ?thesis
      proof (cases f)
        case Continue
        then have "chat_loop env (Suc iteration) st1 = (Chat_cancelled, st')"
          using "1.prems" lt nc it by (subst (asm) chat_loop.simps) simp
        from "1.IH"[OF lt nc it[symmetric] Continue this]
        obtain k where "Suc iteration < k" "k \<le> e_max_iterations env" "e_cancel_flag env k"
          by blast
        then show ?thesis by (intro exI[of _ k]) simp
      next
        case (Break a)
        then show ?thesis using "1.prems" lt nc it
          by (subst (asm) chat_loop.simps) auto
      next
        case (Raise e)
        then show ?thesis using "1.prems" lt nc it
          by (subst (asm) chat_loop.simps) auto
      qed
    qed
  qed
qed

lemma agent_loop_cancelled_flag:
  "agent_loop env iteration message' st = (Agent_cancelled, st') \<Longrightarrow>
   \<exists>k. iteration < k \<and> k \<le> e_max_iterations env \<and> e_cancel_flag env k"
proof (induction env iteration message' st rule: agent_loop.induct)
  case (1 env iteration message' st)
  show ?case
  proof (cases "iteration < e_max_iterations env")
    case False
    then show ?thesis using "1.prems" by (subst (asm) agent_loop.simps) auto
  next
    case lt: True
    show ?thesis
    proof (cases "e_cancel_flag env (Suc iteration)")
      case True
      then show ?thesis using lt by (intro exI[of _ "Suc iteration"]) simp
    next
      case nc: False
      obtain f st1 where it: "agent_iteration env (Suc iteration) message' st = (f, st1)"
        by (cases "agent_iteration env (Suc iteration) message' st")
      show ?thesis
      proof (cases f)
        case A_continue
        then have "agent_loop env (Suc iteration) message' st1 = (Agent_cancelled, st')"
          using "1.prems" lt nc it by (subst (asm) agent_loop.simps) simp
        from "1.IH"[OF lt nc it[symmetric] A_continue this]
        obtain k where "Suc iteration < k" "k \<le> e_max_iterations env" "e_cancel_flag env k"
          by blast
        then show ?thesis by (intro exI[of _ k]) simp
      next
        case A_break
        then show ?thesis using "1.prems" lt nc it
          by (subst (asm) agent_loop.simps) auto
      next
        case A_return
        then show ?thesis using "1.prems" lt nc it
          by (subst (asm) agent_loop.simps) auto
      next
        case (A_raise e)
        then show ?thesis using "1.prems" lt nc it
          by (subst (asm) agent_loop.simps) auto
      qed
    qed
  qed
qed

text \<open>
  A Chat Mode turn that emitted \<open>cancelled\<close> then emits \<open>complete\<close>, with the text
  that the branch of the cancellation sets.
\<close>

lemma chat_stream_cancelled:
  assumes "K_cancelled \<in> set (terminals (t_events (chat_stream env message' st0)))"
  shows "terminals (t_events (chat_stream env message' st0)) = [K_cancelled, K_complete]"
    and "\<exists>r. last (t_events (chat_stream env message' st0)) = Complete r
           \<and> cr_assistant_message r = ''Response stopped by user.''"
    and "\<exists>k. 0 < k \<and> k \<le> e_max_iterations env \<and> e_cancel_flag env k"
proof -
  define st1 where "st1 = log_user env message'
       (st0\<lparr>t_thinking_steps := [], t_step_counter := 0, t_last_prompt_tokens := 0,
            t_current_sources := [], t_tools := chat_tools env,
            t_events := [], t_executed := []\<rparr>)"
  have e1: "t_events st1 = []" by (simp add: st1_def)
  obtain x st where l: "chat_loop env 0 st1 = (x, st)"
    by (cases "chat_loop env 0 st1")
  have t: "terminals (t_events st) = (case x of Chat_cancelled \<Rightarrow> [K_cancelled] | _ \<Rightarrow> [])"
    using chat_loop_terminals[OF l] e1 by (simp add: terminals_def)
  have cs: "chat_stream env message' st0 =
      (case (x, st) of
           (Chat_raised e, st) \<Rightarrow>
             (case log_assistant env (Some (error_text e)) [] st of
                Inl _ \<Rightarrow> yield (Error (error_text e)) st
              | Inr st' \<Rightarrow> yield (Error (error_text e)) st')
         | (x, st) \<Rightarrow>
             yield (Complete (build_response ''chat'' message' (chat_final_response x)
                                (list_ex ts_has_code (t_thinking_steps st)) None st)) st)"
    unfolding chat_stream_def Let_def st1_def[symmetric] l ..
  have x: "x = Chat_cancelled"
  proof (cases x)
    case Chat_cancelled
    then show ?thesis .
  next
    case (Chat_answered a)
    then show ?thesis using assms t by (simp add: cs terminals_single)
  next
    case Chat_exhausted
    then show ?thesis using assms t by (simp add: cs terminals_single)
  next
    case (Chat_raised e)
    show ?thesis
    proof (cases "log_assistant env (Some (error_text e)) [] st")
      case (Inl e')
      then show ?thesis using assms t Chat_raised by (simp add: cs terminals_single)
    next
      case (Inr st2)
      then show ?thesis using assms t Chat_raised log_assistant_frame(1)[OF Inr]
        by (simp add: cs terminals_single)
    qed
  qed
  show "terminals (t_events (chat_stream env message' st0)) = [K_cancelled, K_complete]"
    using x t by (simp add: cs terminals_single)
  show "\<exists>r. last (t_events (chat_stream env message' st0)) = Complete r
           \<and> cr_assistant_message r = ''Response stopped by user.''"
    using x by (simp add: cs chat_final_response_def build_response_def)
  from chat_loop_cancelled_flag[of env 0 st1 st] l x
  show "\<exists>k. 0 < k \<and> k \<le> e_max_iterations env \<and> e_cancel_flag env k" by simp
qed

text \<open>
  An Agent Mode turn that emitted \<open>cancelled\<close> returns, and emits \<open>complete\<close> before
  it does.
\<close>

lemma log_assistant_text:
  "c \<noteq> [] \<Longrightarrow> \<exists>st'. log_assistant env (Some c) [] st = Inr st'"
  by (simp add: log_assistant_def add_assistant_message_def truthy_def Let_def)

lemma agent_finish_unready:
  "agent_finish env message' False final st =
     (Returned,
      yield (Complete (build_response ''agent'' message' final
                         (list_ex ts_has_code (t_thinking_steps st)) None st)) st)"
  by (simp add: agent_finish_def extract_artifact_def)

lemma agent_finish_no_cancelled:
  "K_cancelled \<in> set (terminals (t_events (snd (agent_finish env message' ready final st)))) \<Longrightarrow>
   K_cancelled \<in> set (terminals (t_events st))"
  by (auto simp: agent_finish_def terminals_single split: sum.splits prod.splits)

lemma agent_stream_cancelled:
  assumes "K_cancelled \<in> set (terminals (t_events (snd (agent_stream env message' st0))))"
  shows "fst (agent_stream env message' st0) = Returned"
    and "terminals (t_events (snd (agent_stream env message' st0))) = [K_cancelled, K_complete]"
    and "\<exists>k. 0 < k \<and> k \<le> e_max_iterations env \<and> e_cancel_flag env k"
proof -
  define st1 where "st1 = log_user env message'
                  (st0\<lparr>t_thinking_steps := [], t_step_counter := 0, t_last_prompt_tokens := 0,
                       t_current_sources := [], t_tools := stage_tools env (t_stage st0),
                       t_events := [], t_executed := []\<rparr>)"
  have e1: "t_events st1 = []" by (simp add: st1_def)
  obtain x st where l: "agent_loop env 0 message' st1 = (x, st)"
    by (cases "agent_loop env 0 message' st1")
  have t: "terminals (t_events st) =
       (case x of Agent_cancelled \<Rightarrow> [K_cancelled] | Agent_returned \<Rightarrow> [K_complete] | _ \<Rightarrow> [])
     \<or> x = Agent_returned \<and> terminals (t_events st) = [K_error]"
    using agent_loop_terminals[OF l] e1 by (simp add: terminals_def)
  have cs: "agent_stream env message' st0 =
      (case (x, st) of
           (Agent_returned, st) \<Rightarrow> (Returned, st)
         | (Agent_ready, st) \<Rightarrow>
             (case e_final_chat env (messages (t_manager st)) of
                Inl e \<Rightarrow> (Propagated e, st)
              | Inr response \<Rightarrow>
                  (let st2 = track_usage response st in
                   case log_assistant env (r_content response) [] st2 of
                     Inl e \<Rightarrow> (Propagated e, st2)
                   | Inr st3 \<Rightarrow>
                       agent_finish env message' True
                         (case r_content response of None \<Rightarrow> [] | Some t \<Rightarrow> t)
                         (if t_stage st3 = Research then reset_to_hil st3 else st3)))
         | (_, st) \<Rightarrow>
             (case log_assistant env (Some MAXED_OUT) [] st of
                Inl e \<Rightarrow> (Propagated e, st)
              | Inr st' \<Rightarrow> agent_finish env message' False MAXED_OUT st'))"
    unfolding agent_stream_def Let_def st1_def[symmetric] l ..
  have x: "x = Agent_cancelled"
  proof (cases x)
    case Agent_cancelled
    then show ?thesis .
  next
    case Agent_exhausted
    obtain st2 where la: "log_assistant env (Some MAXED_OUT) [] st = Inr st2"
      using log_assistant_text[of MAXED_OUT env st] by (auto simp: MAXED_OUT_def)
    have "terminals (t_events st2) = []"
      using log_assistant_frame(1)[OF la] t Agent_exhausted by simp
    then show ?thesis using assms Agent_exhausted la
      by (simp add: cs agent_finish_unready terminals_single)
  next
    case Agent_returned
    then show ?thesis using assms t by (auto simp: cs)
  next
    case Agent_ready
    have t0: "terminals (t_events st) = []" using t Agent_ready by simp
    show ?thesis
    proof (cases "e_final_chat env (messages (t_manager st))")
      case (Inl e)
      then show ?thesis using assms Agent_ready t0 by (simp add: cs)
    next
      case (Inr response)
      show ?thesis
      proof (cases "log_assistant env (r_content response) [] (track_usage response st)")
        case e: (Inl e)
        then show ?thesis using assms Agent_ready Inr t0 by (simp add: cs Let_def)
      next
        case st3: (Inr st3)
        have eq: "agent_stream env message' st0 =
            agent_finish env message' True
              (case r_content response of None \<Rightarrow> [] | Some t \<Rightarrow> t)
              (if t_stage st3 = Research then reset_to_hil st3 else st3)"
          using Agent_ready Inr st3 by (simp add: cs Let_def)
        have "terminals (t_events (if t_stage st3 = Research then reset_to_hil st3 else st3)) = []"
          using log_assistant_frame(1)[OF st3] t0 by simp
        moreover have "K_cancelled \<in> set (terminals (t_events
                (if t_stage st3 = Research then reset_to_hil st3 else st3)))"
          using assms unfolding eq by (rule agent_finish_no_cancelled)
        ultimately show ?thesis by simp
      qed
    qed
  qed
  obtain st2 where la: "log_assistant env (Some MAXED_OUT) [] st = Inr st2"
    using log_assistant_text[of MAXED_OUT env st] by (auto simp: MAXED_OUT_def)
  have t2: "terminals (t_events st2) = [K_cancelled]"
    using log_assistant_frame(1)[OF la] t x by simp
  have r: "agent_stream env message' st0 = agent_finish env message' False MAXED_OUT st2"
    using x la by (simp add: cs)
  show "fst (agent_stream env message' st0) = Returned"
    by (simp add: r agent_finish_unready)
  show "terminals (t_events (snd (agent_stream env message' st0))) = [K_cancelled, K_complete]"
    using t2 by (simp add: r agent_finish_unready terminals_single)
  from agent_loop_cancelled_flag[of env 0 message' st1 st] l x
  show "\<exists>k. 0 < k \<and> k \<le> e_max_iterations env \<and> e_cancel_flag env k" by simp
qed

text \<open>
  Claim C1, as the code has it. The terminal events of a Chat Mode turn, and of an
  Agent Mode turn whose generator returns, are one \<open>error\<close>, or one \<open>complete\<close>, or
  one \<open>cancelled\<close> followed by one \<open>complete\<close>. A loop that comes to the head of an
  iteration with the cancel flag set emits \<open>cancelled\<close> and is left, in both modes.
  A turn that emitted \<open>cancelled\<close> saw the flag set at the head of an iteration, and
  it goes on to emit \<open>complete\<close> and no \<open>error\<close>: a Chat Mode turn with the
  response text \<open>Response stopped by user.\<close>, an Agent Mode turn by returning.
\<close>

theorem turn_terminal_events:
  "terminals (t_events (chat_stream env message' st0))
     \<in> {[K_error], [K_complete], [K_cancelled, K_complete]}
   \<and> (agent_stream env message' st0 = (Returned, st') \<longrightarrow>
        terminals (t_events st') \<in> {[K_error], [K_complete], [K_cancelled, K_complete]})
   \<and> (iteration < e_max_iterations env \<and> e_cancel_flag env (Suc iteration) \<longrightarrow>
        chat_loop env iteration st =
          (Chat_cancelled, yield (Cancelled (length (t_thinking_steps st)) None) st)
        \<and> fst (agent_loop env iteration message' st) = Agent_cancelled
        \<and> t_events (snd (agent_loop env iteration message' st))
            = t_events st @ [Cancelled (length (t_thinking_steps st)) (Some Hil)])
   \<and> (K_cancelled \<in> set (terminals (t_events (chat_stream env message' st0))) \<longrightarrow>
        terminals (t_events (chat_stream env message' st0)) = [K_cancelled, K_complete]
        \<and> (\<exists>r. last (t_events (chat_stream env message' st0)) = Complete r
               \<and> cr_assistant_message r = ''Response stopped by user.'')
        \<and> (\<exists>k. 0 < k \<and> k \<le> e_max_iterations env \<and> e_cancel_flag env k))
   \<and> (K_cancelled \<in> set (terminals (t_events (snd (agent_stream env message' st0)))) \<longrightarrow>
        fst (agent_stream env message' st0) = Returned
        \<and> terminals (t_events (snd (agent_stream env message' st0))) = [K_cancelled, K_complete]
        \<and> (\<exists>k. 0 < k \<and> k \<le> e_max_iterations env \<and> e_cancel_flag env k))"
proof -
  note A = chat_stream_terminals[of env message' st0]
  have B: "agent_stream env message' st0 = (Returned, st') \<longrightarrow>
        terminals (t_events st') \<in> {[K_error], [K_complete], [K_cancelled, K_complete]}"
    using agent_stream_terminals[of env message' st0 st'] by blast
  have C: "iteration < e_max_iterations env \<and> e_cancel_flag env (Suc iteration) \<longrightarrow>
        chat_loop env iteration st =
          (Chat_cancelled, yield (Cancelled (length (t_thinking_steps st)) None) st)
        \<and> fst (agent_loop env iteration message' st) = Agent_cancelled
        \<and> t_events (snd (agent_loop env iteration message' st))
            = t_events st @ [Cancelled (length (t_thinking_steps st)) (Some Hil)]"
    using chat_loop_cancel_now[of iteration env st]
      agent_loop_cancel_now[of iteration env message' st] by blast
  have D: "K_cancelled \<in> set (terminals (t_events (chat_stream env message' st0))) \<longrightarrow>
        terminals (t_events (chat_stream env message' st0)) = [K_cancelled, K_complete]
        \<and> (\<exists>r. last (t_events (chat_stream env message' st0)) = Complete r
               \<and> cr_assistant_message r = ''Response stopped by user.'')
        \<and> (\<exists>k. 0 < k \<and> k \<le> e_max_iterations env \<and> e_cancel_flag env k)"
    using chat_stream_cancelled[of env message' st0] by blast
  have E: "K_cancelled \<in> set (terminals (t_events (snd (agent_stream env message' st0)))) \<longrightarrow>
        fst (agent_stream env message' st0) = Returned
        \<and> terminals (t_events (snd (agent_stream env message' st0))) = [K_cancelled, K_complete]
        \<and> (\<exists>k. 0 < k \<and> k \<le> e_max_iterations env \<and> e_cancel_flag env k)"
    using agent_stream_cancelled[of env message' st0] by blast
  show ?thesis by (rule conjI[OF A conjI[OF B conjI[OF C conjI[OF D E]]]])
qed

text \<open>
  A turn that is answered at once, and a turn whose cancel flag is set from the
  start.
\<close>

theorem turn_terminal_events_witness:
  "terminals (t_events (chat_stream example_env ''What is 2+3?'' (example_turn Hil)))
     \<in> {[K_error], [K_complete], [K_cancelled, K_complete]}
   \<and> fst (agent_stream example_env ''What is 2+3?'' (example_turn Hil)) = Returned
   \<and> terminals (t_events (snd (agent_stream example_env ''What is 2+3?'' (example_turn Hil))))
     \<in> {[K_error], [K_complete], [K_cancelled, K_complete]}
   \<and> 0 < e_max_iterations cancelled_env \<and> e_cancel_flag cancelled_env (Suc 0)
   \<and> fst (chat_loop cancelled_env 0 (example_turn Hil)) = Chat_cancelled
   \<and> fst (agent_loop cancelled_env 0 ''What is 2+3?'' (example_turn Research)) = Agent_cancelled
   \<and> terminals (t_events (chat_stream cancelled_env ''What is 2+3?'' (example_turn Hil)))
       = [K_cancelled, K_complete]
   \<and> (\<exists>r. last (t_events (chat_stream cancelled_env ''What is 2+3?'' (example_turn Hil)))
              = Complete r
          \<and> cr_assistant_message r = ''Response stopped by user.'')
   \<and> terminals (t_events (snd (agent_stream cancelled_env ''What is 2+3?''
                                  (example_turn Research))))
       = [K_cancelled, K_complete]"
proof -
  define R where "R = agent_stream example_env ''What is 2+3?'' (example_turn Hil)"
  have f: "fst R = Returned" unfolding R_def by code_simp
  then have R: "agent_stream example_env ''What is 2+3?'' (example_turn Hil) = (Returned, snd R)"
    unfolding R_def by (metis prod.collapse)
  note i1 = turn_terminal_events[where env = example_env and message' = "''What is 2+3?''"
      and ?st0.0 = "example_turn Hil" and st' = "snd R"]
  from i1 R f have P1:
    "terminals (t_events (chat_stream example_env ''What is 2+3?'' (example_turn Hil)))
       \<in> {[K_error], [K_complete], [K_cancelled, K_complete]}
     \<and> fst (agent_stream example_env ''What is 2+3?'' (example_turn Hil)) = Returned
     \<and> terminals (t_events (snd (agent_stream example_env ''What is 2+3?'' (example_turn Hil))))
       \<in> {[K_error], [K_complete], [K_cancelled, K_complete]}"
    unfolding R_def by blast
  have g: "0 < e_max_iterations cancelled_env \<and> e_cancel_flag cancelled_env (Suc 0)"
    by (simp add: cancelled_env_def example_env_def)
  have c1: "K_cancelled \<in> set (terminals (t_events
              (chat_stream cancelled_env ''What is 2+3?'' (example_turn Hil))))"
    by code_simp
  have c2: "K_cancelled \<in> set (terminals (t_events
              (snd (agent_stream cancelled_env ''What is 2+3?'' (example_turn Research)))))"
    by code_simp
  note i2 = turn_terminal_events[where env = cancelled_env and message' = "''What is 2+3?''"
      and ?st0.0 = "example_turn Hil" and iteration = 0 and st = "example_turn Hil"]
  note i3 = turn_terminal_events[where env = cancelled_env and message' = "''What is 2+3?''"
      and ?st0.0 = "example_turn Research" and iteration = 0 and st = "example_turn Research"]
  from i2 g c1 have P2:
    "fst (chat_loop cancelled_env 0 (example_turn Hil)) = Chat_cancelled
     \<and> terminals (t_events (chat_stream cancelled_env ''What is 2+3?'' (example_turn Hil)))
         = [K_cancelled, K_complete]
     \<and> (\<exists>r. last (t_events (chat_stream cancelled_env ''What is 2+3?'' (example_turn Hil)))
              = Complete r
          \<and> cr_assistant_message r = ''Response stopped by user.'')"
    by auto
  from i3 g c2 have P3:
    "fst (agent_loop cancelled_env 0 ''What is 2+3?'' (example_turn Research)) = Agent_cancelled
     \<and> terminals (t_events (snd (agent_stream cancelled_env ''What is 2+3?''
                                  (example_turn Research))))
       = [K_cancelled, K_complete]"
    by blast
  from P1 g P2 P3 show ?thesis by blast
qed

text \<open>
  The claim as the specification words it fails on a turn cancelled before its first
  iteration: in both modes \<open>cancelled\<close> is followed by \<open>complete\<close>.
\<close>

theorem cancelled_then_complete_counterexample:
  "terminals (t_events (chat_stream cancelled_env ''What is 2+3?'' (example_turn Hil)))
     = [K_cancelled, K_complete]
   \<and> (case last (t_events (chat_stream cancelled_env ''What is 2+3?'' (example_turn Hil))) of
         Complete r \<Rightarrow> cr_assistant_message r = ''Response stopped by user.'' | _ \<Rightarrow> False)
   \<and> fst (agent_stream cancelled_env ''What is 2+3?'' (example_turn Hil)) = Returned
   \<and> terminals (t_events (snd (agent_stream cancelled_env ''What is 2+3?'' (example_turn Hil))))
     = [K_cancelled, K_complete]"
  by code_simp

text \<open>
  In Agent Mode the branch of the cancellation sets the response text
  \<open>Research stopped by user.\<close>, as the branch of Chat Mode sets its own; the code
  after the loop then takes the branch for iterations used up and puts its note in
  place of that text.
\<close>

lemma agent_cancelled_text_overwritten:
  "(case last (t_events (snd (agent_stream cancelled_env ''What is 2+3?'' (example_turn Hil)))) of
      Complete r \<Rightarrow>
        cr_assistant_message r = ''I need more iterations to complete this request.''
    | _ \<Rightarrow> False)"
  by code_simp

section \<open>Claim C8: the success flag of a thinking step\<close>

lemma is_error_parse_failure:
  "is_error (''Failed to parse tool arguments: '' @ e)"
  by (simp add: is_error_def startswith_def)

lemma is_error_execution_failed:
  "is_error (''Tool execution failed: '' @ e)"
  by (simp add: is_error_def startswith_def)

lemma is_error_not_found:
  "is_error (''Tool '' @ [CHR 0x27] @ tool_name @ ''' not found'')"
proof -
  have "sublist ''' not found'' (''Tool '' @ [CHR 0x27] @ tool_name @ ''' not found'')"
    unfolding sublist_def by (intro exI[of _ "''Tool '' @ [CHR 0x27] @ tool_name"] exI[of _ "[]"]) simp
  then show ?thesis by (simp add: is_error_def startswith_def py_in_def)
qed








lemma run_tool_call_raised:
  assumes "run_tool_call env numbered r tc st = (Some e, st')"
  shows "t_thinking_steps st' = t_thinking_steps st" and "t_events st' = t_events st"
proof -
  define st1 where "st1 = st\<lparr>t_step_counter := t_step_counter st + 1\<rparr>"
  have fr: "t_events (snd (execute_tool env numbered tc st1)) = t_events st"
    "t_thinking_steps (snd (execute_tool env numbered tc st1)) = t_thinking_steps st"
    by (simp_all add: st1_def)
  from assms have "st' = snd (execute_tool env numbered tc st1)"
    unfolding run_tool_call_def Let_def st1_def[symmetric]
    by (auto simp: split_beta split: sum.splits)
  then show "t_thinking_steps st' = t_thinking_steps st" and "t_events st' = t_events st"
    using fr by simp_all
qed




section \<open>Claim C10: the artifact of the final answer\<close>

lemma extract_artifact_some:
  "extract_artifact env ready final_response = Inr (Some a, m) \<Longrightarrow>
   ready \<and> py_in ''<!DOCTYPE html>'' final_response"
  by (cases "ready \<and> py_in ''<!DOCTYPE html>'' final_response")
     (simp_all add: extract_artifact_def)

lemma extract_artifact_none:
  "\<not> py_in ''<!DOCTYPE html>'' final_response \<Longrightarrow>
   extract_artifact env ready final_response = Inr (None, final_response)"
  by (simp add: extract_artifact_def)

text \<open>
  Claim C10. An artifact comes out of the extraction only after the final-answer
  phase was reached and only when the final text contains \<open><!DOCTYPE html>\<close> in
  exactly this casing. For a text without that substring the patterns are not
  tried: the response has no artifact and its assistant message is the whole text.
\<close>

theorem artifact_needs_exact_doctype:
  "(extract_artifact env ready final_response = Inr (Some a, m) \<longrightarrow>
      ready \<and> py_in ''<!DOCTYPE html>'' final_response)
   \<and> (\<not> py_in ''<!DOCTYPE html>'' final_response \<longrightarrow>
        extract_artifact env ready final_response = Inr (None, final_response)
        \<and> (\<exists>r. agent_finish env message' ready final_response st = (Returned, yield (Complete r) st)
               \<and> cr_artifact r = None \<and> cr_assistant_message r = final_response))"
proof -
  have A: "extract_artifact env ready final_response = Inr (Some a, m) \<longrightarrow>
      ready \<and> py_in ''<!DOCTYPE html>'' final_response"
    using extract_artifact_some[of env ready final_response a m] by blast
  have B: "\<not> py_in ''<!DOCTYPE html>'' final_response \<longrightarrow>
        extract_artifact env ready final_response = Inr (None, final_response)"
    using extract_artifact_none[of final_response env ready] by blast
  have C: "\<not> py_in ''<!DOCTYPE html>'' final_response \<longrightarrow>
      (\<exists>r. agent_finish env message' ready final_response st = (Returned, yield (Complete r) st)
               \<and> cr_artifact r = None \<and> cr_assistant_message r = final_response)"
  proof
    assume n: "\<not> py_in ''<!DOCTYPE html>'' final_response"
    let ?r = "build_response ''agent'' message' final_response
                (list_ex ts_has_code (t_thinking_steps st)) None st"
    have "agent_finish env message' ready final_response st = (Returned, yield (Complete ?r) st)"
      by (simp add: agent_finish_def extract_artifact_none[OF n])
    moreover have "cr_artifact ?r = None" "cr_assistant_message ?r = final_response"
      by (simp_all add: build_response_def)
    ultimately show "\<exists>r. agent_finish env message' ready final_response st
                  = (Returned, yield (Complete r) st)
               \<and> cr_artifact r = None \<and> cr_assistant_message r = final_response"
      by blast
  qed
  from A B C show ?thesis by blast
qed

text \<open>
  The two example answers differ only in the casing of the doctype. Both patterns
  ignore case and find the document in each of them; the answer with
  \<open><!doctype html>\<close> still gets no artifact and keeps its whole text.
\<close>

theorem artifact_needs_exact_doctype_witness:
  "search_from fenced_at lower_doc
     = Some (10, ''<!doctype html><h1>Report</h1></html>'')
   \<and> search_from bare_at lower_doc
     = Some (18, ''<!doctype html><h1>Report</h1></html>'')
   \<and> \<not> py_in ''<!DOCTYPE html>'' lower_doc
   \<and> extract_artifact example_env True lower_doc = Inr (None, lower_doc)
   \<and> (\<exists>r. agent_finish example_env ''hi'' True lower_doc (example_turn Research)
              = (Returned, yield (Complete r) (example_turn Research))
          \<and> cr_artifact r = None \<and> cr_assistant_message r = lower_doc)
   \<and> py_in ''<!DOCTYPE html>'' upper_doc
   \<and> extract_artifact example_env True upper_doc
     = Inr (Some \<lparr>a_type = ''html_blog'', a_title = ''Report'',
                  a_html_content = ''<!DOCTYPE html><h1>Report</h1></html>'',
                  a_file_path = ''/data/workspace_agent/artifact.html'',
                  a_file_size_kb = 0\<rparr>,
            ''Overview.'')"
proof -
  have s1: "search_from fenced_at lower_doc
     = Some (10, ''<!doctype html><h1>Report</h1></html>'')"
    by code_simp
  have s2: "search_from bare_at lower_doc
     = Some (18, ''<!doctype html><h1>Report</h1></html>'')"
    by code_simp
  have n: "\<not> py_in ''<!DOCTYPE html>'' lower_doc" by code_simp
  have u: "extract_artifact example_env True upper_doc
     = Inr (Some \<lparr>a_type = ''html_blog'', a_title = ''Report'',
                  a_html_content = ''<!DOCTYPE html><h1>Report</h1></html>'',
                  a_file_path = ''/data/workspace_agent/artifact.html'',
                  a_file_size_kb = 0\<rparr>,
            ''Overview.'')"
    by code_simp
  note lo = artifact_needs_exact_doctype[of example_env True lower_doc _ _ "''hi''"
      "example_turn Research"]
  note up = artifact_needs_exact_doctype[of example_env True upper_doc
      "\<lparr>a_type = ''html_blog'', a_title = ''Report'',
                  a_html_content = ''<!DOCTYPE html><h1>Report</h1></html>'',
                  a_file_path = ''/data/workspace_agent/artifact.html'',
                  a_file_size_kb = 0\<rparr>" "''Overview.''" "''hi''"
      "example_turn Research"]
  from up u have p: "py_in ''<!DOCTYPE html>'' upper_doc" by blast
  from lo n have l: "extract_artifact example_env True lower_doc = Inr (None, lower_doc)
     \<and> (\<exists>r. agent_finish example_env ''hi'' True lower_doc (example_turn Research)
              = (Returned, yield (Complete r) (example_turn Research))
          \<and> cr_artifact r = None \<and> cr_assistant_message r = lower_doc)" by blast
  from s1 s2 n l p u show ?thesis by blast
qed


section \<open>Claim C4: the sources of a response\<close>



lemma enumerate_sources_length [simp]:
  "length (enumerate_sources i hits) = length hits"
  by (induction hits arbitrary: i) simp_all


lemma dense_Nil [simp]: "dense_from_one []"
  by (simp add: dense_from_one_def)









lemma response_sources_other [simp]:
  "response_sources (Thinking_step ts) = []"
  "response_sources Stage_switch = []"
  "response_sources (Cancelled n s) = []"
  "response_sources (Error t) = []"
  by (simp_all add: response_sources_def)








lemma sources_inv_switch [simp]:
  "sources_inv (switch_to_research_stage env st) = sources_inv st"
  "sources_inv (reset_to_hil st) = sources_inv st"
  "sources_inv (log_user env c st) = sources_inv st"
  "sources_inv (track_usage r st) = sources_inv st"
  "sources_inv (forced_compaction env st) = sources_inv st"
  "sources_inv (st\<lparr>t_executed := ex\<rparr>) = sources_inv st"
  by (simp_all add: sources_inv_def)















section \<open>Claim C5: a turn that uses up its iterations\<close>

text \<open>
  When the loop of Agent Mode ends because the iterations are used up, the text of
  the response is the note for that case.
\<close>

lemma agent_stream_exhausted:
  assumes "agent_loop env 0 message'
             (log_user env message'
                (st0\<lparr>t_thinking_steps := [], t_step_counter := 0, t_last_prompt_tokens := 0,
                     t_current_sources := [], t_tools := stage_tools env (t_stage st0),
                     t_events := [], t_executed := []\<rparr>)) = (Agent_exhausted, st)"
    and "agent_stream env message' st0 = (Returned, st')"
  shows "\<exists>r. last (t_events st') = Complete r
           \<and> cr_assistant_message r = ''I need more iterations to complete this request.''"
  using assms unfolding agent_stream_def Let_def
  by (auto simp: agent_finish_def extract_artifact_def build_response_def MAXED_OUT_def
      split: sum.splits)

text \<open>
  In Chat Mode the text of the response starts empty and nothing sets it when the
  loop ends because the iterations are used up.
\<close>

lemma chat_stream_exhausted:
  assumes "chat_loop env 0
             (log_user env message'
                (st0\<lparr>t_thinking_steps := [], t_step_counter := 0, t_last_prompt_tokens := 0,
                     t_current_sources := [], t_tools := chat_tools env,
                     t_events := [], t_executed := []\<rparr>)) = (Chat_exhausted, st)"
  shows "\<exists>r. last (t_events (chat_stream env message' st0)) = Complete r
           \<and> cr_assistant_message r = []"
  using assms unfolding chat_stream_def Let_def
  by (simp add: build_response_def chat_final_response_def)

text \<open>
  Claim C5. With three iterations allowed and a model that asks for a web search in
  each of them, neither mode sees \<open>stop_answer\<close> and both run three iterations and
  emit \<open>complete\<close>. The response of Agent Mode holds
  \<open>I need more iterations to complete this request.\<close>; the response of Chat Mode
  holds the empty text.
\<close>

theorem chat_mode_exhausted_empty_answer:
  "e_max_iterations searching_env = 3
   \<and> map kind_of (t_events (chat_stream searching_env ''What is new?'' (example_turn Hil)))
       = [K_thinking_step, K_thinking_step, K_thinking_step, K_complete]
   \<and> t_executed (chat_stream searching_env ''What is new?'' (example_turn Hil))
       = [''web_search'', ''web_search'', ''web_search'']
   \<and> (case last (t_events (chat_stream searching_env ''What is new?'' (example_turn Hil))) of
         Complete r \<Rightarrow> cr_assistant_message r = [] | _ \<Rightarrow> False)
   \<and> fst (agent_stream searching_env ''What is new?'' (example_turn Research)) = Returned
   \<and> map kind_of (t_events (snd (agent_stream searching_env ''What is new?''
                                     (example_turn Research))))
       = [K_thinking_step, K_thinking_step, K_thinking_step, K_complete]
   \<and> (case last (t_events (snd (agent_stream searching_env ''What is new?''
                                    (example_turn Research)))) of
         Complete r \<Rightarrow>
           cr_assistant_message r = ''I need more iterations to complete this request.''
       | _ \<Rightarrow> False)"
  by code_simp

section \<open>Claim C9: a response that proposes a control tool\<close>

lemma agent_body_start_research:
  assumes "e_chat env iteration (messages (t_manager st)) = Inr response"
    and "has_call ''start_research'' (r_tool_calls response)"
  shows "agent_body env iteration message' st = on_start_research env (track_usage response st)"
proof -
  have "r_tool_calls response \<noteq> []" using assms(2) by (auto simp: has_call_def)
  then show ?thesis using assms by (simp add: agent_body_def Let_def)
qed

lemma agent_body_stop_answer:
  assumes "e_chat env iteration (messages (t_manager st)) = Inr response"
    and "\<not> has_call ''start_research'' (r_tool_calls response)"
    and "has_call ''stop_answer'' (r_tool_calls response)"
  shows "agent_body env iteration message' st = on_stop_answer env (track_usage response st)"
proof -
  have "r_tool_calls response \<noteq> []" using assms(3) by (auto simp: has_call_def)
  then show ?thesis using assms by (simp add: agent_body_def Let_def)
qed

lemma agent_iteration_raise:
  assumes "agent_body env iteration message' st = (A_raise e, st1)"
  shows "fst (agent_iteration env iteration message' st) = A_return"
    and "t_events (snd (agent_iteration env iteration message' st))
           = t_events st1 @ [Error (error_text e)]"
    and "t_thinking_steps (snd (agent_iteration env iteration message' st)) = t_thinking_steps st1"
    and "t_executed (snd (agent_iteration env iteration message' st)) = t_executed st1"
    and "t_stage (snd (agent_iteration env iteration message' st)) = t_stage st1"
  using assms
  by (auto simp: agent_iteration_def split: sum.splits
      dest: log_assistant_frame(1) log_assistant_frame(2) log_assistant_frame(3)
        log_assistant_frame(8))

lemma agent_iteration_start_research:
  assumes "e_chat env iteration (messages (t_manager st)) = Inr response"
    and "has_call ''start_research'' (r_tool_calls response)"
  shows "t_thinking_steps (snd (agent_iteration env iteration message' st)) = t_thinking_steps st"
    and "''start_research'' \<in> set (t_tools st) \<Longrightarrow>
         fst (agent_iteration env iteration message' st) = A_continue
         \<and> t_stage (snd (agent_iteration env iteration message' st)) = Research
         \<and> t_events (snd (agent_iteration env iteration message' st))
             = t_events st @ [Stage_switch]
         \<and> t_executed (snd (agent_iteration env iteration message' st))
             = t_executed st @ [''start_research'']"
    and "''start_research'' \<notin> set (t_tools st) \<Longrightarrow>
         fst (agent_iteration env iteration message' st) = A_return
         \<and> t_stage (snd (agent_iteration env iteration message' st)) = t_stage st
         \<and> t_events (snd (agent_iteration env iteration message' st))
             = t_events st @ [Error (error_text none_has_no_execute)]
         \<and> t_executed (snd (agent_iteration env iteration message' st)) = t_executed st"
proof -
  note b = agent_body_start_research[OF assms, of message']
  have r: "''start_research'' \<notin> set (t_tools st) \<Longrightarrow>
      agent_body env iteration message' st = (A_raise none_has_no_execute, track_usage response st)"
    by (simp add: b on_start_research_def)
  have c: "''start_research'' \<in> set (t_tools st) \<Longrightarrow>
      agent_iteration env iteration message' st = on_start_research env (track_usage response st)"
    by (simp add: agent_iteration_def b on_start_research_def)
  show "t_thinking_steps (snd (agent_iteration env iteration message' st)) = t_thinking_steps st"
  proof (cases "''start_research'' \<in> set (t_tools st)")
    case True
    then show ?thesis by (simp add: c on_start_research_def switch_to_research_stage_def)
  next
    case False
    from agent_iteration_raise(3)[OF r[OF False]] show ?thesis by simp
  qed
  show "''start_research'' \<in> set (t_tools st) \<Longrightarrow>
         fst (agent_iteration env iteration message' st) = A_continue
         \<and> t_stage (snd (agent_iteration env iteration message' st)) = Research
         \<and> t_events (snd (agent_iteration env iteration message' st))
             = t_events st @ [Stage_switch]
         \<and> t_executed (snd (agent_iteration env iteration message' st))
             = t_executed st @ [''start_research'']"
    by (simp add: c on_start_research_def switch_to_research_stage_def)
  show "''start_research'' \<notin> set (t_tools st) \<Longrightarrow>
         fst (agent_iteration env iteration message' st) = A_return
         \<and> t_stage (snd (agent_iteration env iteration message' st)) = t_stage st
         \<and> t_events (snd (agent_iteration env iteration message' st))
             = t_events st @ [Error (error_text none_has_no_execute)]
         \<and> t_executed (snd (agent_iteration env iteration message' st)) = t_executed st"
    using agent_iteration_raise[OF r] by simp
qed

lemma agent_iteration_stop_answer:
  assumes "e_chat env iteration (messages (t_manager st)) = Inr response"
    and "\<not> has_call ''start_research'' (r_tool_calls response)"
    and "has_call ''stop_answer'' (r_tool_calls response)"
  shows "t_thinking_steps (snd (agent_iteration env iteration message' st)) = t_thinking_steps st"
    and "''stop_answer'' \<in> set (t_tools st) \<Longrightarrow>
         fst (agent_iteration env iteration message' st) = A_break
         \<and> t_stage (snd (agent_iteration env iteration message' st)) = t_stage st
         \<and> t_events (snd (agent_iteration env iteration message' st)) = t_events st
         \<and> t_executed (snd (agent_iteration env iteration message' st))
             = t_executed st @ [''stop_answer'']"
    and "''stop_answer'' \<notin> set (t_tools st) \<Longrightarrow>
         fst (agent_iteration env iteration message' st) = A_return
         \<and> t_stage (snd (agent_iteration env iteration message' st)) = t_stage st
         \<and> t_events (snd (agent_iteration env iteration message' st))
             = t_events st @ [Error (error_text none_has_no_execute)]
         \<and> t_executed (snd (agent_iteration env iteration message' st)) = t_executed st"
proof -
  note b = agent_body_stop_answer[OF assms, of message']
  have r: "''stop_answer'' \<notin> set (t_tools st) \<Longrightarrow>
      agent_body env iteration message' st = (A_raise none_has_no_execute, track_usage response st)"
    by (simp add: b on_stop_answer_def)
  have c: "''stop_answer'' \<in> set (t_tools st) \<Longrightarrow>
      agent_iteration env iteration message' st = on_stop_answer env (track_usage response st)"
    by (simp add: agent_iteration_def b on_stop_answer_def)
  show "t_thinking_steps (snd (agent_iteration env iteration message' st)) = t_thinking_steps st"
  proof (cases "''stop_answer'' \<in> set (t_tools st)")
    case True
    then show ?thesis by (simp add: c on_stop_answer_def)
  next
    case False
    from agent_iteration_raise(3)[OF r[OF False]] show ?thesis by simp
  qed
  show "''stop_answer'' \<in> set (t_tools st) \<Longrightarrow>
         fst (agent_iteration env iteration message' st) = A_break
         \<and> t_stage (snd (agent_iteration env iteration message' st)) = t_stage st
         \<and> t_events (snd (agent_iteration env iteration message' st)) = t_events st
         \<and> t_executed (snd (agent_iteration env iteration message' st))
             = t_executed st @ [''stop_answer'']"
    by (simp add: c on_stop_answer_def)
  show "''stop_answer'' \<notin> set (t_tools st) \<Longrightarrow>
         fst (agent_iteration env iteration message' st) = A_return
         \<and> t_stage (snd (agent_iteration env iteration message' st)) = t_stage st
         \<and> t_events (snd (agent_iteration env iteration message' st))
             = t_events st @ [Error (error_text none_has_no_execute)]
         \<and> t_executed (snd (agent_iteration env iteration message' st)) = t_executed st"
    using agent_iteration_raise[OF r] by simp
qed

lemma control_tools_by_stage:
  "''start_research'' \<in> set (stage_tools env Hil)"
  "''stop_answer'' \<notin> set (stage_tools env Hil)"
  "''start_research'' \<notin> set (stage_tools env Research)"
  "''stop_answer'' \<in> set (stage_tools env Research)"
  by (auto simp: stage_tools_def tools_hil_def tools_research_def mcp_names_def)

text \<open>
  \<open>_execute_tool\<close> looks a tool up in the same registry and answers a name that is
  not there with a text; the two control branches call \<open>execute\<close> on what the
  lookup gave.
\<close>

lemma execute_tool_guards_lookup:
  "fst (execute_tool with_start_research_env False (call ''c2'' ''start_research'' ''{}'')
          ((example_turn Research)\<lparr>t_tools := tools_research with_start_research_env\<rparr>))
     = ''Tool 'start_research' not found''"
  by code_simp

text \<open>
  Claim C9. A response that proposes a control tool next to other tools has none of
  the others executed and gets no thinking step
  (\<open>agent_iteration_start_research\<close>, \<open>agent_iteration_stop_answer\<close>). The control
  proposal itself does not always take effect. In the Research stage a response with
  a web search and \<open>start_research\<close>, and in the first stage a response with a web
  search and \<open>stop_answer\<close>, end the turn with \<open>error\<close>: the registry of the stage
  does not have the control tool, the lookup gives \<open>None\<close>, and \<open>execute\<close> is called
  on it. No stage is switched and no final answer is asked for. In the Research stage
  this also happens when \<open>stop_answer\<close>, which is registered there, is proposed in
  the same response.
\<close>

theorem control_tool_not_registered_crashes:
  "r_tool_calls (proposal [call ''c1'' ''web_search'' ''{}'', call ''c2'' ''start_research'' ''{}''])
     = [call ''c1'' ''web_search'' ''{}'', call ''c2'' ''start_research'' ''{}'']
   \<and> fst (agent_stream with_start_research_env ''Compare the two.'' (example_turn Research))
       = Returned
   \<and> t_events (snd (agent_stream with_start_research_env ''Compare the two.''
                       (example_turn Research)))
       = [Error (error_text none_has_no_execute)]
   \<and> t_stage (snd (agent_stream with_start_research_env ''Compare the two.''
                      (example_turn Research))) = Research
   \<and> t_executed (snd (agent_stream with_start_research_env ''Compare the two.''
                         (example_turn Research))) = []
   \<and> fst (agent_stream with_stop_answer_env ''Compare the two.'' (example_turn Hil)) = Returned
   \<and> t_events (snd (agent_stream with_stop_answer_env ''Compare the two.'' (example_turn Hil)))
       = [Error (error_text none_has_no_execute)]
   \<and> t_stage (snd (agent_stream with_stop_answer_env ''Compare the two.'' (example_turn Hil)))
       = Hil
   \<and> t_executed (snd (agent_stream with_stop_answer_env ''Compare the two.'' (example_turn Hil)))
       = []
   \<and> fst (agent_iteration with_stop_answer_env 1 ''Compare the two.''
            ((example_turn Research)\<lparr>t_tools := tools_research with_stop_answer_env\<rparr>))
       = A_break
   \<and> fst (agent_iteration
            (with_stop_answer_env\<lparr>e_chat := (\<lambda>i ms. Inr (proposal
                [call ''c1'' ''stop_answer'' ''{}'', call ''c2'' ''start_research'' ''{}'']))\<rparr>)
            1 ''Compare the two.''
            ((example_turn Research)\<lparr>t_tools := tools_research with_stop_answer_env\<rparr>))
       = A_return"
  by code_simp

end
